theory Spec2Isabelle
  imports Complex_Main "HOL-Library.AList" "HOL-Library.Multiset"
begin

section \<open>The forecast screen of the weather dashboard\<close>

text \<open>
  The development embeds the body of \<^verbatim>\<open>ForecastScreen\<close> (the forecast screen component):
  the two guards on the property \<^verbatim>\<open>forecastData\<close>, the grouping of the three-hour
  forecast items by local calendar date, the reduction of every group to one daily
  forecast, and the final sort. Rendering is left out: the component is modelled up to
  the value handed to the list view. The property \<^verbatim>\<open>settings\<close>, which only selects the
  unit symbol of the rendering, is taken as present.
\<close>

subsection \<open>JavaScript values\<close>

text \<open>The only exception the modelled code can raise is a \<^verbatim>\<open>TypeError\<close>: a property read
  on \<^verbatim>\<open>undefined\<close>, or a call of something that is not a function.\<close>

datatype error = TypeError

text \<open>A number as \<^verbatim>\<open>Math.min\<close> and \<^verbatim>\<open>Math.max\<close> return it: finite, or one of the two
  infinities they return on no arguments. Finite numbers are idealised as reals;
  \<^verbatim>\<open>NaN\<close> is not modelled.\<close>

datatype number = NegInfinity | Num real | PosInfinity

text \<open>
  An ordinary object used as a dictionary is the list of its own properties in the order
  of their creation; \<open>map_of\<close> reads a property (\<open>None\<close> is \<^verbatim>\<open>undefined\<close>) and
  \<open>AList.update\<close> assigns one: in place when the property exists, at the end otherwise.
  Such an object inherits the properties of \<^verbatim>\<open>Object.prototype\<close>. They are modelled for
  \<^verbatim>\<open>weatherCounts\<close>, whose property names are the categories of the data; the property
  names of \<^verbatim>\<open>groupedByDay\<close> are date strings made by the runtime, none of which is the
  name of an inherited property.
\<close>

type_synonym 'v js_object = "(string \<times> 'v) list"

definition is_digit :: "char \<Rightarrow> bool" where
  "is_digit c = (c \<in> set ''0123456789'')"

definition digit_value :: "char \<Rightarrow> int" where
  "digit_value c = of_char c - 48"

definition decimal :: "string \<Rightarrow> int" where
  "decimal s = fold (\<lambda>c n. 10 * n + digit_value c) s 0"

text \<open>An array index is a canonical decimal numeral below \<open>2^32 - 1\<close>.\<close>

definition is_array_index :: "string \<Rightarrow> bool" where
  "is_array_index s =
     (s \<noteq> [] \<and> list_all is_digit s \<and> (hd s \<noteq> CHR ''0'' \<or> s = ''0'')
      \<and> decimal s < 4294967295)"

text \<open>\<^verbatim>\<open>Object.keys\<close>: the array indices in ascending numeric order, then every other
  name in the order of creation.\<close>

definition object_keys :: "'v js_object \<Rightarrow> string list" where
  "object_keys obj =
     (let names = map fst obj
      in sort_key decimal (filter is_array_index names)
         @ filter (\<lambda>k. \<not> is_array_index k) names)"

text \<open>A property key made from a value that may be \<^verbatim>\<open>undefined\<close>.\<close>

definition property_key :: "string option \<Rightarrow> string" where
  "property_key v = (case v of None \<Rightarrow> ''undefined'' | Some s \<Rightarrow> s)"

text \<open>\<^verbatim>\<open>Math.min(...xs)\<close> and \<^verbatim>\<open>Math.max(...xs)\<close>.\<close>

definition math_min :: "real list \<Rightarrow> number" where
  "math_min xs = (case xs of [] \<Rightarrow> PosInfinity | x # rest \<Rightarrow> Num (fold min rest x))"

definition math_max :: "real list \<Rightarrow> number" where
  "math_max xs = (case xs of [] \<Rightarrow> NegInfinity | x # rest \<Rightarrow> Num (fold max rest x))"

subsection \<open>Forecast items and daily forecasts\<close>

text \<open>One entry of \<^verbatim>\<open>item.weather\<close>. The property \<^verbatim>\<open>main\<close> is the coarse category;
  \<open>None\<close> stands for an entry without it.\<close>

record condition =
  main :: "string option"
  description :: string
  icon :: string

text \<open>
  One element of \<^verbatim>\<open>forecastData.list\<close>: \<open>dt\<close> in seconds since the epoch,
  \<open>temp_min\<close> and \<open>temp_max\<close> for \<^verbatim>\<open>item.main.temp_min\<close> and
  \<^verbatim>\<open>item.main.temp_max\<close> (taken as present), and the array \<^verbatim>\<open>item.weather\<close>. An
  item without the property \<^verbatim>\<open>weather\<close> behaves as one with the empty array: reading
  \<^verbatim>\<open>item.weather[0].main\<close> raises for both.
\<close>

record item =
  dt :: int
  temp_min :: real
  temp_max :: real
  weather :: "condition list"

text \<open>
  The object built for one day. \<open>date\<close> is the time value of the \<^verbatim>\<open>Date\<close> object in
  milliseconds; \<open>day_weather\<close> is the property \<^verbatim>\<open>weather\<close> of the daily object, which
  holds a value that may be \<^verbatim>\<open>undefined\<close>.
\<close>

record daily =
  date :: int
  minTemp :: number
  maxTemp :: number
  day_weather :: "condition option"
  items :: "item list"

text \<open>\<^verbatim>\<open>item.weather[0]\<close>: \<^verbatim>\<open>undefined\<close> on an empty array.\<close>

definition weather_0 :: "item \<Rightarrow> condition option" where
  "weather_0 it = (case weather it of [] \<Rightarrow> None | c # _ \<Rightarrow> Some c)"

subsection \<open>Grouping by day\<close>

text \<open>
  The body of the first \<^verbatim>\<open>forEach\<close>. The runtime's \<^verbatim>\<open>toLocaleDateString\<close> (default
  locale, local time zone) is a parameter: it maps the time value of a \<^verbatim>\<open>Date\<close> to the
  date string.
\<close>

definition group_item ::
  "(int \<Rightarrow> string) \<Rightarrow> item \<Rightarrow> item list js_object \<Rightarrow> item list js_object" where
  "group_item toLocaleDateString it grouped =
     (let day = toLocaleDateString (dt it * 1000)
      in case map_of grouped day of
           None \<Rightarrow> AList.update day [it] grouped
         | Some arr \<Rightarrow> AList.update day (arr @ [it]) grouped)"

definition groupedByDay :: "(int \<Rightarrow> string) \<Rightarrow> item list \<Rightarrow> item list js_object" where
  "groupedByDay toLocaleDateString xs = fold (group_item toLocaleDateString) xs []"

subsection \<open>Reducing one day\<close>

text \<open>
  The value of a property of \<^verbatim>\<open>weatherCounts\<close>: a count, or a string that is no numeral.
  For a category with the name of an inherited property, \<^verbatim>\<open>weatherCounts[condition] || 0\<close>
  is the inherited function (for \<^verbatim>\<open>__proto__\<close>, the prototype object): adding 1 to it gives
  a string, and adding 1 to a string gives a string again.
\<close>

datatype tally = Count nat | Text

text \<open>The names of the properties of \<^verbatim>\<open>Object.prototype\<close>.\<close>

definition inherited :: "string list" where
  "inherited =
     [''constructor'', ''__defineGetter__'', ''__defineSetter__'', ''hasOwnProperty'',
      ''__lookupGetter__'', ''__lookupSetter__'', ''isPrototypeOf'', ''propertyIsEnumerable'',
      ''toString'', ''valueOf'', ''__proto__'', ''toLocaleString'']"

text \<open>
  \<^verbatim>\<open>weatherCounts[condition] = (weatherCounts[condition] || 0) + 1\<close>. The assignment to
  \<^verbatim>\<open>__proto__\<close> calls the inherited setter, which ignores a string: no property is created.
\<close>

definition count_condition :: "string \<Rightarrow> tally js_object \<Rightarrow> tally js_object" where
  "count_condition c counts =
     (let v = (case map_of counts c of
                 None \<Rightarrow> if c \<in> set inherited then Text else Count 1
               | Some (Count n) \<Rightarrow> Count (n + 1)
               | Some Text \<Rightarrow> Text)
      in if c = ''__proto__'' then counts else AList.update c v counts)"

text \<open>The tally of the categories: \<^verbatim>\<open>item.weather[0].main\<close> raises when the item has no
  first entry.\<close>

fun weatherCounts :: "item list \<Rightarrow> tally js_object \<Rightarrow> error + tally js_object" where
  "weatherCounts [] counts = Inr counts"
| "weatherCounts (it # rest) counts =
     (case weather_0 it of
        None \<Rightarrow> Inl TypeError
      | Some w \<Rightarrow> weatherCounts rest (count_condition (property_key (main w)) counts))"

text \<open>\<^verbatim>\<open>items.find(item => item.weather[0].main === condition)\<close>: the comparison is
  strict, so a missing category never equals a key.\<close>

fun find_condition :: "string \<Rightarrow> item list \<Rightarrow> error + item option" where
  "find_condition c [] = Inr None"
| "find_condition c (it # rest) =
     (case weather_0 it of
        None \<Rightarrow> Inl TypeError
      | Some w \<Rightarrow> if main w = Some c then Inr (Some it) else find_condition c rest)"

text \<open>
  The loop over \<^verbatim>\<open>Object.keys(weatherCounts)\<close>; the state is the pair of
  \<^verbatim>\<open>mostCommonWeather\<close> and \<^verbatim>\<open>maxCount\<close>. A string that is no numeral is not greater than
  any number, and neither is \<^verbatim>\<open>undefined\<close>.
\<close>

fun mostCommon ::
  "item list \<Rightarrow> tally js_object \<Rightarrow> string list \<Rightarrow> condition option \<times> nat
   \<Rightarrow> error + (condition option \<times> nat)" where
  "mostCommon its counts [] st = Inr st"
| "mostCommon its counts (c # cs) (mostCommonWeather, maxCount) =
     (case map_of counts c of
        None \<Rightarrow> mostCommon its counts cs (mostCommonWeather, maxCount)
      | Some Text \<Rightarrow> mostCommon its counts cs (mostCommonWeather, maxCount)
      | Some (Count n) \<Rightarrow>
          if n > maxCount then
            (case find_condition c its of
               Inl e \<Rightarrow> Inl e
             | Inr None \<Rightarrow> Inl TypeError
             | Inr (Some it) \<Rightarrow> mostCommon its counts cs (weather_0 it, n))
          else mostCommon its counts cs (mostCommonWeather, maxCount))"

text \<open>The callback of \<^verbatim>\<open>Object.keys(groupedByDay).map\<close>, applied to the items of one
  day.\<close>

definition dailyForecast :: "item list \<Rightarrow> error + daily" where
  "dailyForecast its =
     (let lo = math_min (map temp_min its);
          hi = math_max (map temp_max its)
      in case weatherCounts its [] of
           Inl e \<Rightarrow> Inl e
         | Inr counts \<Rightarrow>
             (case its of
                [] \<Rightarrow> Inl TypeError
              | first # _ \<Rightarrow>
                  (case mostCommon its counts (object_keys counts) (weather_0 first, 0) of
                     Inl e \<Rightarrow> Inl e
                   | Inr (mostCommonWeather, maxCount) \<Rightarrow>
                       Inr \<lparr>date = dt first * 1000, minTemp = lo, maxTemp = hi,
                            day_weather = mostCommonWeather, items = its\<rparr>)))"

fun dailyForecasts :: "item list js_object \<Rightarrow> string list \<Rightarrow> error + daily list" where
  "dailyForecasts grouped [] = Inr []"
| "dailyForecasts grouped (day # days) =
     (case map_of grouped day of
        None \<Rightarrow> Inl TypeError
      | Some its \<Rightarrow>
          (case dailyForecast its of
             Inl e \<Rightarrow> Inl e
           | Inr d \<Rightarrow>
               (case dailyForecasts grouped days of
                  Inl e \<Rightarrow> Inl e
                | Inr ds \<Rightarrow> Inr (d # ds))))"

subsection \<open>The aggregation and the component\<close>

text \<open>Grouping, reduction and the stable sort by \<^verbatim>\<open>a.date - b.date\<close>.\<close>

definition aggregate :: "(int \<Rightarrow> string) \<Rightarrow> item list \<Rightarrow> error + daily list" where
  "aggregate toLocaleDateString xs =
     (let grouped = groupedByDay toLocaleDateString xs
      in case dailyForecasts grouped (object_keys grouped) of
           Inl e \<Rightarrow> Inl e
         | Inr ds \<Rightarrow> Inr (sort_key date ds))"

text \<open>
  The value of \<^verbatim>\<open>forecastData.list\<close>: falsy (absent, \<^verbatim>\<open>null\<close>, \<^verbatim>\<open>0\<close>, the empty
  string), truthy without a method \<^verbatim>\<open>forEach\<close>, or an array.
\<close>

datatype list_value = Falsy | NotArray | Array "item list"

datatype screen = LoadingIndicator | Unavailable | ForecastList "daily list"

text \<open>\<open>None\<close> is a falsy \<^verbatim>\<open>forecastData\<close>, \<open>Some l\<close> an object whose property
  \<^verbatim>\<open>list\<close> is \<open>l\<close>.\<close>

definition ForecastScreen ::
  "(int \<Rightarrow> string) \<Rightarrow> list_value option \<Rightarrow> bool \<Rightarrow> error + screen" where
  "ForecastScreen toLocaleDateString forecastData loading =
     (if loading \<and> forecastData = None then Inr LoadingIndicator
      else case forecastData of
             None \<Rightarrow> Inr Unavailable
           | Some Falsy \<Rightarrow> Inr Unavailable
           | Some NotArray \<Rightarrow> Inl TypeError
           | Some (Array xs) \<Rightarrow>
               (case aggregate toLocaleDateString xs of
                  Inl e \<Rightarrow> Inl e
                | Inr ds \<Rightarrow> Inr (ForecastList ds)))"

subsection \<open>The aggregation on an explicit store\<close>

text \<open>
  The same code with its arrays in a store, for the properties that depend on what the
  code writes. The store is the list of the arrays of items that exist, an address is an
  index into it: the array \<^verbatim>\<open>forecastData.list\<close> lives at some address, and the literal
  \<^verbatim>\<open>[]\<close> of the grouping allocates a new array at the end. \<^verbatim>\<open>groupedByDay\<close> maps a date
  string to the address of its array, and \<^verbatim>\<open>push\<close> updates the array at that address in
  place. The items are values: the code assigns to no property of an item. The objects
  \<^verbatim>\<open>weatherCounts\<close> and the array \<^verbatim>\<open>dailyForecasts\<close>, created by a literal and by
  \<^verbatim>\<open>map\<close> and sorted in place, stay values as above. Only the indices below the length
  of the store are addresses; the properties are stated for an input array at one of
  them.
\<close>

type_synonym heap = "item list list"

text \<open>The body of the first \<^verbatim>\<open>forEach\<close>: the assignment of a new array when the day has
  none, then the \<^verbatim>\<open>push\<close>, which raises when there is no array to push to.\<close>

definition group_item_in ::
  "(int \<Rightarrow> string) \<Rightarrow> item \<Rightarrow> heap \<Rightarrow> nat js_object \<Rightarrow> heap \<times> (error + nat js_object)" where
  "group_item_in toLocaleDateString it h grouped =
     (let day = toLocaleDateString (dt it * 1000);
          (h1, grouped1) =
             (case map_of grouped day of
                None \<Rightarrow> (h @ [[]], AList.update day (length h) grouped)
              | Some _ \<Rightarrow> (h, grouped))
      in case map_of grouped1 day of
           None \<Rightarrow> (h1, Inl TypeError)
         | Some a \<Rightarrow> (h1[a := h1 ! a @ [it]], Inr grouped1))"

text \<open>\<^verbatim>\<open>forEach\<close> over the array at address \<open>a\<close>: the indices below the length at the
  start, each element read from the store when its turn comes.\<close>

fun forEach_in ::
  "(int \<Rightarrow> string) \<Rightarrow> nat \<Rightarrow> nat list \<Rightarrow> heap \<Rightarrow> nat js_object
   \<Rightarrow> heap \<times> (error + nat js_object)" where
  "forEach_in toLocaleDateString a [] h grouped = (h, Inr grouped)"
| "forEach_in toLocaleDateString a (i # rest) h grouped =
     (if i < length (h ! a)
      then (case group_item_in toLocaleDateString (h ! a ! i) h grouped of
              (h1, Inl e) \<Rightarrow> (h1, Inl e)
            | (h1, Inr grouped1) \<Rightarrow> forEach_in toLocaleDateString a rest h1 grouped1)
      else forEach_in toLocaleDateString a rest h grouped)"

text \<open>Reading \<^verbatim>\<open>groupedByDay[date]\<close> for every date: the arrays behind the addresses.\<close>

definition deref :: "heap \<Rightarrow> nat js_object \<Rightarrow> item list js_object" where
  "deref h grouped = map (\<lambda>(day, a). (day, h ! a)) grouped"

text \<open>The aggregation of the array at address \<open>a\<close>: the store it leaves, and the sorted
  daily forecasts or the exception.\<close>

definition aggregate_in ::
  "(int \<Rightarrow> string) \<Rightarrow> nat \<Rightarrow> heap \<Rightarrow> heap \<times> (error + daily list)" where
  "aggregate_in toLocaleDateString a h =
     (case forEach_in toLocaleDateString a [0..<length (h ! a)] h [] of
        (h1, Inl e) \<Rightarrow> (h1, Inl e)
      | (h1, Inr grouped) \<Rightarrow>
          (h1, case dailyForecasts (deref h1 grouped) (object_keys grouped) of
                 Inl e \<Rightarrow> Inl e
               | Inr ds \<Rightarrow> Inr (sort_key date ds)))"

text \<open>\<open>n\<close> calls in a row on the same array, each in the store the one before has left.\<close>

fun calls ::
  "nat \<Rightarrow> (int \<Rightarrow> string) \<Rightarrow> nat \<Rightarrow> heap \<Rightarrow> heap \<times> (error + daily list) list" where
  "calls 0 toLocaleDateString a h = (h, [])"
| "calls (Suc n) toLocaleDateString a h =
     (case aggregate_in toLocaleDateString a h of
        (h1, r) \<Rightarrow>
          (case calls n toLocaleDateString a h1 of (h2, rs) \<Rightarrow> (h2, r # rs)))"

text \<open>The invariant of the grouping loop, from the store \<open>h\<close> at the start: the arrays of
  \<open>h\<close> are unchanged, and the days have distinct arrays allocated after the start.\<close>

definition grouping_inv :: "heap \<Rightarrow> heap \<Rightarrow> nat js_object \<Rightarrow> bool" where
  "grouping_inv h h' g =
     (length h \<le> length h' \<and> take (length h) h' = h
      \<and> (\<forall>b\<in>snd ` set g. length h \<le> b \<and> b < length h')
      \<and> distinct (map snd g))"

subsection \<open>A concrete runtime: the locale en-US in the time zone UTC\<close>

fun show_nat :: "nat \<Rightarrow> string" where
  "show_nat n =
     (if n < 10 then [char_of (48 + n)]
      else show_nat (n div 10) @ [char_of (48 + n mod 10)])"

declare show_nat.simps [simp del]

definition show_int :: "int \<Rightarrow> string" where
  "show_int i = (if i < 0 then CHR ''-'' # show_nat (nat (- i)) else show_nat (nat i))"

text \<open>The civil date of a day number (days since 1970-01-01), proleptic Gregorian.\<close>

definition civil_from_days :: "int \<Rightarrow> int \<times> int \<times> int" where
  "civil_from_days z0 =
     (let z = z0 + 719468;
          era = z div 146097;
          doe = z - era * 146097;
          yoe = (doe - doe div 1460 + doe div 36524 - doe div 146096) div 365;
          doy = doe - (365 * yoe + yoe div 4 - yoe div 100);
          mp = (5 * doy + 2) div 153;
          d = doy - (153 * mp + 2) div 5 + 1;
          m = (if mp < 10 then mp + 3 else mp - 9);
          y = yoe + era * 400 + (if m \<le> 2 then 1 else 0)
      in (y, m, d))"

definition en_US_UTC :: "int \<Rightarrow> string" where
  "en_US_UTC ms =
     (case civil_from_days (ms div 86400000) of
        (y, m, d) \<Rightarrow> show_int m @ ''/'' @ show_int d @ ''/'' @ show_int y)"

subsection \<open>Notions used to state the properties\<close>

text \<open>The category of an item: the property \<^verbatim>\<open>main\<close> of its first condition entry, when
  both are there.\<close>

definition conditionCategory :: "item \<Rightarrow> string option" where
  "conditionCategory it = (case weather_0 it of None \<Rightarrow> None | Some w \<Rightarrow> main w)"

text \<open>The number of items of a list that have the category \<open>c\<close>.\<close>

definition occurrences :: "item list \<Rightarrow> string option \<Rightarrow> nat" where
  "occurrences its c = length (filter (\<lambda>it. conditionCategory it = c) its)"

text \<open>An item is well formed when it has a first condition entry with a category.\<close>

definition well_formed :: "item \<Rightarrow> bool" where
  "well_formed it = (conditionCategory it \<noteq> None)"

text \<open>A category is a plain name when it is neither an array index nor the name of an
  inherited property.\<close>

definition plain_name :: "string \<Rightarrow> bool" where
  "plain_name c = (\<not> is_array_index c \<and> c \<notin> set inherited)"

text \<open>The category \<open>c\<close> is the most frequent of a list of items, with no tie: every item
  of another category has a category with strictly fewer occurrences.\<close>

definition most_frequent :: "string \<Rightarrow> item list \<Rightarrow> bool" where
  "most_frequent c its =
     (\<forall>x\<in>set its. conditionCategory x \<noteq> Some c
        \<longrightarrow> occurrences its (conditionCategory x) < occurrences its (Some c))"

text \<open>
  The days of a list of items are intervals in time: an item between two items of one
  day, in the order of the timestamps, is of that day too. It holds of every list when
  the date string is that of a day number that grows with the time.
\<close>

definition days_are_intervals :: "(int \<Rightarrow> string) \<Rightarrow> item list \<Rightarrow> bool" where
  "days_are_intervals toLocaleDateString xs =
     (\<forall>x\<in>set xs. \<forall>y\<in>set xs. \<forall>z\<in>set xs.
        dt x \<le> dt y \<and> dt y \<le> dt z
        \<and> toLocaleDateString (dt x * 1000) = toLocaleDateString (dt z * 1000)
        \<longrightarrow> toLocaleDateString (dt y * 1000) = toLocaleDateString (dt x * 1000))"

text \<open>The earliest timestamp among the items of the day \<open>k\<close>.\<close>

definition earliest :: "(int \<Rightarrow> string) \<Rightarrow> item list \<Rightarrow> string \<Rightarrow> int" where
  "earliest toLocaleDateString xs k =
     Min (dt ` {x \<in> set xs. toLocaleDateString (dt x * 1000) = k})"

text \<open>The count a property of \<^verbatim>\<open>weatherCounts\<close> stands for in the comparison with
  \<^verbatim>\<open>maxCount\<close>: a string or a missing property is never greater, as the count 0.\<close>

definition count_value :: "tally js_object \<Rightarrow> string \<Rightarrow> nat" where
  "count_value counts c = (case map_of counts c of Some (Count n) \<Rightarrow> n | _ \<Rightarrow> 0)"

text \<open>The key under which the tally counts an item.\<close>

abbreviation key_of :: "item \<Rightarrow> string" where
  "key_of it \<equiv> property_key (conditionCategory it)"

text \<open>The elements of a list in the order of their first occurrence.\<close>

fun first_seen :: "'a list \<Rightarrow> 'a list" where
  "first_seen [] = []"
| "first_seen (x # xs) = x # removeAll x (first_seen xs)"

subsection \<open>Concrete forecasts\<close>

definition entry :: "string \<Rightarrow> string \<Rightarrow> condition" where
  "entry c d = \<lparr>main = Some c, description = d, icon = ''01d''\<rparr>"

definition sample :: "int \<Rightarrow> real \<Rightarrow> real \<Rightarrow> condition list \<Rightarrow> item" where
  "sample t lo hi ws = \<lparr>dt = t, temp_min = lo, temp_max = hi, weather = ws\<rparr>"

text \<open>Three items on 1 January 1970 (00:00, 03:00 and 06:00 UTC), and the same after an
  item of 2 January (01:00 UTC).\<close>

definition day_one :: "item list" where
  "day_one = [sample 0 10 14 [entry ''Clear'' ''clear sky''],
              sample 10800 15 19 [entry ''Clear'' ''clear sky''],
              sample 21600 12 16 [entry ''Rain'' ''light rain'']]"

definition two_days :: "item list" where
  "two_days = sample 90000 5 9 [entry ''Rain'' ''light rain''] # day_one"

definition first_day :: daily where
  "first_day = \<lparr>date = 0, minTemp = Num 10, maxTemp = Num 19,
                 day_weather = Some (entry ''Clear'' ''clear sky''), items = day_one\<rparr>"

definition second_day :: daily where
  "second_day = \<lparr>date = 90000000, minTemp = Num 5, maxTemp = Num 9,
                  day_weather = Some (entry ''Rain'' ''light rain''),
                  items = [sample 90000 5 9 [entry ''Rain'' ''light rain'']]\<rparr>"

text \<open>
  Five items of 1 January 1970 in the order of time, every three hours from 00:00 UTC:
  one \<^verbatim>\<open>Clear\<close>, then \<^verbatim>\<open>Rain\<close> and \<^verbatim>\<open>Clouds\<close> twice each, \<^verbatim>\<open>Rain\<close> first; and the
  daily forecast of that day.
\<close>

definition tied_day :: "item list" where
  "tied_day = [sample 0 10 14 [entry ''Clear'' ''clear sky''],
               sample 10800 15 19 [entry ''Rain'' ''light rain''],
               sample 21600 12 16 [entry ''Clouds'' ''few clouds''],
               sample 32400 18 22 [entry ''Rain'' ''heavy rain''],
               sample 43200 16 20 [entry ''Clouds'' ''broken clouds'']]"

definition tied_daily :: daily where
  "tied_daily = \<lparr>date = 0, minTemp = Num 10, maxTemp = Num 22,
                  day_weather = Some (entry ''Rain'' ''light rain''), items = tied_day\<rparr>"

section \<open>Properties of the parts\<close>

subsection \<open>Objects\<close>

lemma set_object_keys: "set (object_keys obj) = fst ` set obj"
  by (auto simp: object_keys_def Let_def)

lemma mset_object_keys: "mset (object_keys obj) = mset (map fst obj)"
  by (simp add: object_keys_def Let_def multiset_partition [symmetric])

lemma distinct_object_keys: "distinct (map fst obj) \<Longrightarrow> distinct (object_keys obj)"
  using mset_object_keys [of obj] by (metis mset_eq_imp_distinct_iff)

lemma length_object_keys: "length (object_keys obj) = length obj"
  using mset_object_keys [of obj] by (metis length_map size_mset)

lemma object_keys_plain:
  "\<forall>k\<in>fst ` set obj. \<not> is_array_index k \<Longrightarrow> object_keys obj = map fst obj"
  by (simp add: object_keys_def Let_def filter_empty_conv)

subsection \<open>Grouping\<close>

lemma map_of_group_item:
  "map_of (group_item tz x g) k =
     (if tz (dt x * 1000) = k
      then Some ((case map_of g k of None \<Rightarrow> [] | Some arr \<Rightarrow> arr) @ [x])
      else map_of g k)"
  by (simp add: group_item_def Let_def AList.update_conv' split: option.splits)

lemma keys_group_item:
  "fst ` set (group_item tz x g) = insert (tz (dt x * 1000)) (fst ` set g)"
  by (simp add: group_item_def Let_def AList.dom_update split: option.splits)

lemma distinct_group_item:
  "distinct (map fst g) \<Longrightarrow> distinct (map fst (group_item tz x g))"
  by (simp add: group_item_def Let_def AList.distinct_update split: option.splits)

lemma map_of_fold_group_item:
  "map_of (fold (group_item tz) xs g) k =
     (if filter (\<lambda>x. tz (dt x * 1000) = k) xs = [] then map_of g k
      else Some ((case map_of g k of None \<Rightarrow> [] | Some arr \<Rightarrow> arr)
                 @ filter (\<lambda>x. tz (dt x * 1000) = k) xs))"
proof (induction xs arbitrary: g)
  case Nil
  then show ?case by simp
next
  case (Cons x xs)
  show ?case
    by (simp add: Cons.IH map_of_group_item split: option.splits)
qed

lemma keys_fold_group_item:
  "fst ` set (fold (group_item tz) xs g) = fst ` set g \<union> (\<lambda>x. tz (dt x * 1000)) ` set xs"
proof (induction xs arbitrary: g)
  case Nil
  then show ?case by simp
next
  case (Cons x xs)
  show ?case
    by (auto simp: Cons.IH keys_group_item)
qed

lemma distinct_fold_group_item:
  "distinct (map fst g) \<Longrightarrow> distinct (map fst (fold (group_item tz) xs g))"
proof (induction xs arbitrary: g)
  case Nil
  then show ?case by simp
next
  case (Cons x xs)
  show ?case
    by (simp add: Cons.IH Cons.prems distinct_group_item)
qed

lemma map_of_groupedByDay:
  "map_of (groupedByDay tz xs) k =
     (if k \<in> (\<lambda>x. tz (dt x * 1000)) ` set xs
      then Some (filter (\<lambda>x. tz (dt x * 1000) = k) xs) else None)"
  by (auto simp: groupedByDay_def map_of_fold_group_item filter_empty_conv)

lemma keys_groupedByDay:
  "fst ` set (groupedByDay tz xs) = (\<lambda>x. tz (dt x * 1000)) ` set xs"
  by (simp add: groupedByDay_def keys_fold_group_item)

lemma distinct_groupedByDay: "distinct (map fst (groupedByDay tz xs))"
  by (simp add: groupedByDay_def distinct_fold_group_item)

subsection \<open>Reducing one day\<close>

lemma well_formed_weather_0: "well_formed it \<Longrightarrow> weather_0 it \<noteq> None"
  by (auto simp: well_formed_def conditionCategory_def split: option.splits)

lemma math_min_Min: "xs \<noteq> [] \<Longrightarrow> math_min xs = Num (Min (set xs))"
  by (cases xs) (simp_all add: math_min_def Min.set_eq_fold [symmetric])

lemma math_max_Max: "xs \<noteq> [] \<Longrightarrow> math_max xs = Num (Max (set xs))"
  by (cases xs) (simp_all add: math_max_def Max.set_eq_fold [symmetric])

lemma keys_count_condition:
  "fst ` set (count_condition c counts)
     = (if c = ''__proto__'' then fst ` set counts else insert c (fst ` set counts))"
  by (simp add: count_condition_def Let_def AList.dom_update)

lemma names_count_condition:
  "map fst (count_condition c counts)
     = (if c = ''__proto__'' \<or> c \<in> fst ` set counts then map fst counts
        else map fst counts @ [c])"
  by (simp add: count_condition_def Let_def AList.update_keys)

lemma weatherCounts_Cons:
  "weather_0 x = Some w \<Longrightarrow>
   weatherCounts (x # its) counts = weatherCounts its (count_condition (key_of x) counts)"
  by (simp add: conditionCategory_def)

lemma weatherCounts_Inr_weather_0:
  "weatherCounts its counts = Inr counts' \<Longrightarrow> \<forall>x\<in>set its. weather_0 x \<noteq> None"
  by (induction its arbitrary: counts) (auto split: option.splits)

lemma weatherCounts_keys:
  "weatherCounts its counts = Inr counts' \<Longrightarrow>
   fst ` set counts' \<subseteq> fst ` set counts \<union> key_of ` set its"
proof (induction its arbitrary: counts)
  case Nil
  then show ?case by simp
next
  case (Cons x its)
  from Cons.prems obtain w where w: "weather_0 x = Some w"
    by (auto split: option.splits)
  from Cons.prems have "weatherCounts its (count_condition (key_of x) counts) = Inr counts'"
    by (simp only: weatherCounts_Cons [OF w])
  from Cons.IH [OF this] show ?case
    by (auto simp: keys_count_condition split: if_splits)
qed

lemma weatherCounts_total:
  "\<forall>x\<in>set its. weather_0 x \<noteq> None \<Longrightarrow> \<exists>counts'. weatherCounts its counts = Inr counts'"
  by (induction its arbitrary: counts) (auto split: option.splits)

lemma find_condition_find:
  "\<forall>x\<in>set its. weather_0 x \<noteq> None \<Longrightarrow>
   find_condition c its = Inr (List.find (\<lambda>it. conditionCategory it = Some c) its)"
  by (induction its) (auto simp: conditionCategory_def split: option.splits)

lemma find_condition_Some:
  "find_condition c its = Inr (Some it) \<Longrightarrow> it \<in> set its \<and> conditionCategory it = Some c"
  by (induction its) (auto simp: conditionCategory_def split: option.splits if_splits)

lemma mostCommon_Cons:
  "mostCommon its counts (c # cs) (w, m) =
     (if count_value counts c > m then
        (case find_condition c its of
           Inl e \<Rightarrow> Inl e
         | Inr None \<Rightarrow> Inl TypeError
         | Inr (Some it) \<Rightarrow> mostCommon its counts cs (weather_0 it, count_value counts c))
      else mostCommon its counts cs (w, m))"
  by (simp add: count_value_def split: option.splits tally.splits
      cong: sum.case_cong option.case_cong)

lemma mostCommon_from_items:
  "mostCommon its counts cs (w, m) = Inr (w', m') \<Longrightarrow>
   w' = w \<or> (\<exists>x\<in>set its. w' = weather_0 x)"
proof (induction cs arbitrary: w m)
  case Nil
  then show ?case by simp
next
  case (Cons c cs)
  show ?case
  proof (cases "count_value counts c > m")
    case False
    with Cons.prems have "mostCommon its counts cs (w, m) = Inr (w', m')"
      by (simp only: mostCommon_Cons if_False)
    then show ?thesis by (rule Cons.IH)
  next
    case True
    with Cons.prems obtain it where it: "find_condition c its = Inr (Some it)"
      and rest: "mostCommon its counts cs (weather_0 it, count_value counts c) = Inr (w', m')"
      by (auto simp only: mostCommon_Cons if_True split: sum.splits option.splits)
    from Cons.IH [OF rest] find_condition_Some [OF it] show ?thesis by auto
  qed
qed

lemma mostCommon_total:
  "\<forall>c\<in>set cs. \<exists>it. find_condition c its = Inr (Some it) \<Longrightarrow>
   \<exists>st'. mostCommon its counts cs (w, m) = Inr st'"
  by (induction cs arbitrary: w m) (auto split: option.splits tally.splits)

lemma dailyForecast_Inr:
  assumes "dailyForecast its = Inr d"
  shows "its \<noteq> []" and "items d = its" and "date d = dt (hd its) * 1000"
    and "minTemp d = Num (Min (temp_min ` set its))"
    and "maxTemp d = Num (Max (temp_max ` set its))"
    and "\<forall>x\<in>set its. weather_0 x \<noteq> None"
    and "\<exists>x\<in>set its. day_weather d = weather_0 x"
proof -
  from assms obtain counts where counts: "weatherCounts its [] = Inr counts"
    by (auto simp: dailyForecast_def Let_def split: sum.splits)
  from assms counts obtain first rest where its: "its = first # rest"
    by (cases its) (auto simp: dailyForecast_def Let_def)
  from assms counts its obtain w m where
    pick: "mostCommon its counts (object_keys counts) (weather_0 first, 0) = Inr (w, m)"
    and d: "d = \<lparr>date = dt first * 1000, minTemp = math_min (map temp_min its),
                 maxTemp = math_max (map temp_max its), day_weather = w, items = its\<rparr>"
    by (auto simp: dailyForecast_def Let_def split: sum.splits)
  show "its \<noteq> []" using its by simp
  show "items d = its" using d by simp
  show "date d = dt (hd its) * 1000" using d its by simp
  show "minTemp d = Num (Min (temp_min ` set its))"
    using d its math_min_Min [of "map temp_min its"] by simp
  show "maxTemp d = Num (Max (temp_max ` set its))"
    using d its math_max_Max [of "map temp_max its"] by simp
  show "\<forall>x\<in>set its. weather_0 x \<noteq> None"
    using counts by (rule weatherCounts_Inr_weather_0)
  show "\<exists>x\<in>set its. day_weather d = weather_0 x"
    using mostCommon_from_items [OF pick] d its by auto
qed

lemma dailyForecast_total:
  assumes ne: "its \<noteq> []" and wf: "\<forall>x\<in>set its. well_formed x"
  shows "\<exists>d. dailyForecast its = Inr d"
proof -
  from wf have w0: "\<forall>x\<in>set its. weather_0 x \<noteq> None"
    by (auto dest: well_formed_weather_0)
  from weatherCounts_total [OF w0] obtain counts where
    counts: "weatherCounts its [] = Inr counts" by blast
  from ne obtain first rest where its: "its = first # rest" by (cases its) auto
  have "\<forall>c\<in>set (object_keys counts). \<exists>it. find_condition c its = Inr (Some it)"
  proof
    fix c assume "c \<in> set (object_keys counts)"
    then have "c \<in> key_of ` set its"
      using weatherCounts_keys [OF counts] by (auto simp: set_object_keys)
    then obtain x where x: "x \<in> set its" "c = property_key (conditionCategory x)" by blast
    with wf have "conditionCategory x = Some c"
      by (auto simp: well_formed_def property_key_def)
    with x have "List.find (\<lambda>it. conditionCategory it = Some c) its \<noteq> None"
      by (auto simp: find_None_iff)
    then show "\<exists>it. find_condition c its = Inr (Some it)"
      by (auto simp: find_condition_find [OF w0])
  qed
  from mostCommon_total [OF this] obtain st where
    "mostCommon its counts (object_keys counts) (weather_0 first, 0) = Inr st" by blast
  with counts its show ?thesis
    by (cases st) (simp add: dailyForecast_def Let_def)
qed

lemma dailyForecasts_Inr:
  "dailyForecasts g ks = Inr ds \<Longrightarrow>
   list_all2 (\<lambda>k d. \<exists>its. map_of g k = Some its \<and> dailyForecast its = Inr d) ks ds"
  by (induction ks arbitrary: ds) (auto split: option.splits sum.splits)

lemma dailyForecasts_total:
  "\<forall>k\<in>set ks. \<exists>its d. map_of g k = Some its \<and> dailyForecast its = Inr d \<Longrightarrow>
   \<exists>ds. dailyForecasts g ks = Inr ds"
  by (induction ks) (auto split: option.splits sum.splits)

subsection \<open>The aggregation\<close>

lemma list_all2_eq_map: "list_all2 (\<lambda>k d. k = f d) ks ds \<Longrightarrow> ks = map f ds"
  by (induction rule: list_all2_induct) simp_all

lemma aggregate_Inr:
  assumes "aggregate tz xs = Inr out"
  shows "\<exists>ds. out = sort_key date ds
           \<and> map (\<lambda>d. tz (date d)) ds = object_keys (groupedByDay tz xs)
           \<and> (\<forall>d\<in>set ds. dailyForecast (filter (\<lambda>x. tz (dt x * 1000) = tz (date d)) xs) = Inr d)"
proof -
  let ?g = "groupedByDay tz xs"
  let ?ks = "object_keys ?g"
  from assms obtain ds where ds: "dailyForecasts ?g ?ks = Inr ds"
    and out: "out = sort_key date ds"
    by (auto simp: aggregate_def Let_def split: sum.splits)
  have rel: "list_all2 (\<lambda>k d. \<exists>its. map_of ?g k = Some its \<and> dailyForecast its = Inr d) ?ks ds"
    using ds by (rule dailyForecasts_Inr)
  have rel': "list_all2 (\<lambda>k d. k = tz (date d)
                \<and> dailyForecast (filter (\<lambda>x. tz (dt x * 1000) = k) xs) = Inr d) ?ks ds"
    using rel
  proof (rule list.rel_mono_strong)
    fix k d
    assume "\<exists>its. map_of ?g k = Some its \<and> dailyForecast its = Inr d"
    then obtain its where its: "map_of ?g k = Some its" and d: "dailyForecast its = Inr d"
      by blast
    from its have its_eq: "its = filter (\<lambda>x. tz (dt x * 1000) = k) xs"
      by (auto simp: map_of_groupedByDay split: if_splits)
    from dailyForecast_Inr(1) [OF d] have "hd its \<in> set its" by simp
    with its_eq have "tz (dt (hd its) * 1000) = k" by auto
    with dailyForecast_Inr(3) [OF d] have "k = tz (date d)" by simp
    with d its_eq show "k = tz (date d)
        \<and> dailyForecast (filter (\<lambda>x. tz (dt x * 1000) = k) xs) = Inr d" by simp
  qed
  have keys: "?ks = map (\<lambda>d. tz (date d)) ds"
    by (rule list_all2_eq_map) (rule list_all2_mono [OF rel'], simp)
  have each: "\<forall>d\<in>set ds. dailyForecast (filter (\<lambda>x. tz (dt x * 1000) = tz (date d)) xs) = Inr d"
  proof
    fix d assume "d \<in> set ds"
    then obtain i where i: "i < length ds" "ds ! i = d" by (auto simp: in_set_conv_nth)
    with rel' have "?ks ! i = tz (date d)
        \<and> dailyForecast (filter (\<lambda>x. tz (dt x * 1000) = ?ks ! i) xs) = Inr d"
      by (auto simp: list_all2_conv_all_nth)
    then show "dailyForecast (filter (\<lambda>x. tz (dt x * 1000) = tz (date d)) xs) = Inr d"
      by (elim conjE) (erule subst)
  qed
  from out keys each show ?thesis by auto
qed

lemma aggregate_total:
  assumes wf: "\<forall>x\<in>set xs. well_formed x"
  shows "\<exists>out. aggregate tz xs = Inr out"
proof -
  let ?g = "groupedByDay tz xs"
  have "\<forall>k\<in>set (object_keys ?g). \<exists>its d. map_of ?g k = Some its \<and> dailyForecast its = Inr d"
  proof
    fix k assume "k \<in> set (object_keys ?g)"
    then have k: "k \<in> (\<lambda>x. tz (dt x * 1000)) ` set xs"
      by (simp add: set_object_keys keys_groupedByDay)
    let ?its = "filter (\<lambda>x. tz (dt x * 1000) = k) xs"
    from k have m: "map_of ?g k = Some ?its" by (simp add: map_of_groupedByDay)
    from k have "?its \<noteq> []" by (auto simp: filter_empty_conv)
    moreover from wf have "\<forall>x\<in>set ?its. well_formed x" by simp
    ultimately obtain d where "dailyForecast ?its = Inr d"
      using dailyForecast_total by blast
    with m show "\<exists>its d. map_of ?g k = Some its \<and> dailyForecast its = Inr d" by blast
  qed
  from dailyForecasts_total [OF this] show ?thesis
    by (auto simp: aggregate_def Let_def)
qed

text \<open>What every daily forecast of the output is.\<close>

lemma aggregate_daily:
  assumes "aggregate tz xs = Inr out" and "s \<in> set out"
  shows "dailyForecast (filter (\<lambda>x. tz (dt x * 1000) = tz (date s)) xs) = Inr s"
    and "tz (date s) \<in> (\<lambda>x. tz (dt x * 1000)) ` set xs"
proof -
  from aggregate_Inr [OF assms(1)] obtain ds where out: "out = sort_key date ds"
    and keys: "map (\<lambda>d. tz (date d)) ds = object_keys (groupedByDay tz xs)"
    and each: "\<forall>d\<in>set ds. dailyForecast (filter (\<lambda>x. tz (dt x * 1000) = tz (date d)) xs) = Inr d"
    by blast
  from assms(2) out have s: "s \<in> set ds" by simp
  with each show "dailyForecast (filter (\<lambda>x. tz (dt x * 1000) = tz (date s)) xs) = Inr s"
    by blast
  from s have "tz (date s) \<in> set (map (\<lambda>d. tz (date d)) ds)" by auto
  then show "tz (date s) \<in> (\<lambda>x. tz (dt x * 1000)) ` set xs"
    by (simp add: keys set_object_keys keys_groupedByDay)
qed

lemma aggregate_days:
  assumes "aggregate tz xs = Inr out"
  shows "mset (map (\<lambda>d. tz (date d)) out) = mset (object_keys (groupedByDay tz xs))"
    and "distinct (map (\<lambda>d. tz (date d)) out)"
    and "set (map (\<lambda>d. tz (date d)) out) = (\<lambda>x. tz (dt x * 1000)) ` set xs"
    and "sorted (map date out)"
proof -
  from aggregate_Inr [OF assms(1)] obtain ds where out: "out = sort_key date ds"
    and keys: "map (\<lambda>d. tz (date d)) ds = object_keys (groupedByDay tz xs)"
    by blast
  have "mset (map (\<lambda>d. tz (date d)) out) = mset (map (\<lambda>d. tz (date d)) ds)"
    by (simp add: out)
  then show m: "mset (map (\<lambda>d. tz (date d)) out) = mset (object_keys (groupedByDay tz xs))"
    by (simp add: keys)
  have "distinct (object_keys (groupedByDay tz xs))"
    by (rule distinct_object_keys) (rule distinct_groupedByDay)
  with m show "distinct (map (\<lambda>d. tz (date d)) out)"
    by (metis mset_eq_imp_distinct_iff)
  from m have "set (map (\<lambda>d. tz (date d)) out) = set (object_keys (groupedByDay tz xs))"
    by (rule mset_eq_setD)
  then show "set (map (\<lambda>d. tz (date d)) out) = (\<lambda>x. tz (dt x * 1000)) ` set xs"
    by (simp add: set_object_keys keys_groupedByDay)
  show "sorted (map date out)" by (simp add: out)
qed

subsection \<open>The order of the days\<close>

lemma earliest_item:
  assumes "k \<in> (\<lambda>x. tz (dt x * 1000)) ` set xs"
  shows "\<exists>e\<in>set xs. tz (dt e * 1000) = k \<and> dt e = earliest tz xs k
           \<and> (\<forall>x\<in>set xs. tz (dt x * 1000) = k \<longrightarrow> dt e \<le> dt x)"
proof -
  let ?S = "dt ` {x \<in> set xs. tz (dt x * 1000) = k}"
  have fin: "finite ?S" by simp
  from assms have ne: "?S \<noteq> {}" by auto
  from Min_in [OF fin ne] obtain e where e: "e \<in> set xs" "tz (dt e * 1000) = k"
    "dt e = Min ?S" by auto
  have "\<forall>x\<in>set xs. tz (dt x * 1000) = k \<longrightarrow> Min ?S \<le> dt x"
    using fin by (auto intro: Min_le)
  with e(2,3) have "tz (dt e * 1000) = k \<and> dt e = earliest tz xs k
      \<and> (\<forall>x\<in>set xs. tz (dt x * 1000) = k \<longrightarrow> dt e \<le> dt x)"
    by (simp add: earliest_def)
  with e(1) show ?thesis by blast
qed

lemma earliest_cong: "set xs = set ys \<Longrightarrow> earliest tz xs = earliest tz ys"
  by (simp add: earliest_def fun_eq_iff)

lemma days_are_intervals_cong:
  "set xs = set ys \<Longrightarrow> days_are_intervals tz xs = days_are_intervals tz ys"
  by (simp add: days_are_intervals_def)

lemma days_strictly_sorted:
  assumes conv: "days_are_intervals tz xs" and out: "aggregate tz xs = Inr out"
  shows "sorted_wrt (<) (map (\<lambda>s. earliest tz xs (tz (date s))) out)"
proof -
  note days = aggregate_days [OF out]
  have "\<forall>i j. i < j \<longrightarrow> j < length out
          \<longrightarrow> earliest tz xs (tz (date (out ! i))) < earliest tz xs (tz (date (out ! j)))"
  proof (intro allI impI)
    fix i j assume ij: "i < j" and j: "j < length out"
    let ?si = "out ! i" and ?sj = "out ! j"
    from ij j have si: "?si \<in> set out" and sj: "?sj \<in> set out" by simp_all
    from days(2) ij j have neq: "tz (date ?si) \<noteq> tz (date ?sj)"
      using nth_eq_iff_index_eq [of "map (\<lambda>d. tz (date d)) out" i j] by simp
    from days(4) ij j have le: "date ?si \<le> date ?sj"
      using sorted_nth_mono [of "map date out" i j] by simp
    note fi = dailyForecast_Inr [OF aggregate_daily(1) [OF out si]]
    note fj = dailyForecast_Inr [OF aggregate_daily(1) [OF out sj]]
    let ?fi = "hd (filter (\<lambda>x. tz (dt x * 1000) = tz (date ?si)) xs)"
    let ?fj = "hd (filter (\<lambda>x. tz (dt x * 1000) = tz (date ?sj)) xs)"
    from fi(1) have "?fi \<in> set (filter (\<lambda>x. tz (dt x * 1000) = tz (date ?si)) xs)"
      by (rule hd_in_set)
    then have fi_in: "?fi \<in> set xs" "tz (dt ?fi * 1000) = tz (date ?si)" by simp_all
    from fj(1) have "?fj \<in> set (filter (\<lambda>x. tz (dt x * 1000) = tz (date ?sj)) xs)"
      by (rule hd_in_set)
    then have fj_in: "?fj \<in> set xs" "tz (dt ?fj * 1000) = tz (date ?sj)" by simp_all
    from le fi(3) fj(3) have first_le: "dt ?fi \<le> dt ?fj" by simp
    from earliest_item [OF aggregate_daily(2) [OF out si]] obtain ei where
      ei: "ei \<in> set xs" "tz (dt ei * 1000) = tz (date ?si)"
      "dt ei = earliest tz xs (tz (date ?si))"
      "\<forall>x\<in>set xs. tz (dt x * 1000) = tz (date ?si) \<longrightarrow> dt ei \<le> dt x" by blast
    from earliest_item [OF aggregate_daily(2) [OF out sj]] obtain ej where
      ej: "ej \<in> set xs" "tz (dt ej * 1000) = tz (date ?sj)"
      "dt ej = earliest tz xs (tz (date ?sj))" by blast
    from ei(4) fi_in have ei_le: "dt ei \<le> dt ?fi" by blast
    have "dt ei < dt ej"
    proof (rule ccontr)
      assume "\<not> dt ei < dt ej"
      then have "dt ej \<le> dt ei" by simp
      moreover from ei_le first_le have "dt ei \<le> dt ?fj" by simp
      moreover from ej(2) fj_in(2) have "tz (dt ej * 1000) = tz (dt ?fj * 1000)" by simp
      ultimately have "tz (dt ei * 1000) = tz (dt ej * 1000)"
        using conv ej(1) ei(1) fj_in(1) unfolding days_are_intervals_def by blast
      with ei(2) ej(2) neq show False by simp
    qed
    with ei(3) ej(3)
    show "earliest tz xs (tz (date ?si)) < earliest tz xs (tz (date ?sj))" by simp
  qed
  then show ?thesis by (simp add: sorted_wrt_iff_nth_less)
qed

lemma days_from_earliest:
  assumes out: "aggregate tz xs = Inr out"
  shows "map (\<lambda>s. tz (date s)) out
           = map (\<lambda>t. tz (t * 1000)) (map (\<lambda>s. earliest tz xs (tz (date s))) out)"
proof -
  have "\<forall>s\<in>set out. tz (date s) = tz (earliest tz xs (tz (date s)) * 1000)"
  proof
    fix s assume "s \<in> set out"
    from earliest_item [OF aggregate_daily(2) [OF out this]]
    show "tz (date s) = tz (earliest tz xs (tz (date s)) * 1000)" by auto
  qed
  then show ?thesis by simp
qed

lemma days_same_order:
  assumes conv: "days_are_intervals tz xs" and perm: "mset xs = mset ys"
    and o1: "aggregate tz xs = Inr out1" and o2: "aggregate tz ys = Inr out2"
  shows "map (\<lambda>s. tz (date s)) out1 = map (\<lambda>s. tz (date s)) out2"
proof -
  from perm have sets: "set xs = set ys" by (rule mset_eq_setD)
  let ?e = "earliest tz xs"
  let ?L1 = "map (\<lambda>s. ?e (tz (date s))) out1" and ?L2 = "map (\<lambda>s. ?e (tz (date s))) out2"
  from conv have conv2: "days_are_intervals tz ys"
    by (simp only: days_are_intervals_cong [OF sets])
  have e2: "earliest tz ys = ?e" by (rule earliest_cong [OF sets [symmetric]])
  have s1: "sorted_wrt (<) ?L1" by (rule days_strictly_sorted [OF conv o1])
  have s2: "sorted_wrt (<) ?L2" using days_strictly_sorted [OF conv2 o2] by (simp only: e2)
  have "set ?L1 = ?e ` set (map (\<lambda>s. tz (date s)) out1)" by auto
  moreover have "set ?L2 = ?e ` set (map (\<lambda>s. tz (date s)) out2)" by auto
  ultimately have sl: "set ?L1 = set ?L2"
    by (simp only: aggregate_days(3) [OF o1] aggregate_days(3) [OF o2] sets)
  from s1 have a1: "sorted ?L1" "distinct ?L1" by (simp_all only: strict_sorted_iff)
  from s2 have a2: "sorted ?L2" "distinct ?L2" by (simp_all only: strict_sorted_iff)
  have "?L1 = ?L2" by (rule sorted_distinct_set_unique [OF a1 a2 sl])
  moreover have "map (\<lambda>s. tz (date s)) out1 = map (\<lambda>t. tz (t * 1000)) ?L1"
    by (rule days_from_earliest [OF o1])
  moreover have "map (\<lambda>s. tz (date s)) out2 = map (\<lambda>t. tz (t * 1000)) ?L2"
    using days_from_earliest [OF o2] by (simp only: e2)
  ultimately show ?thesis by (simp only:)
qed

subsection \<open>The order of the tally and the selection of the most common category\<close>

lemma set_first_seen: "set (first_seen xs) = set xs"
  by (induction xs) auto

lemma distinct_first_seen: "distinct (first_seen xs)"
  by (induction xs) (auto simp: distinct_removeAll)

lemma removeAll_filter: "removeAll x (filter P zs) = filter (\<lambda>k. k \<noteq> x \<and> P k) zs"
  by (induction zs) auto

lemma filter_removeAll: "filter P (removeAll x zs) = filter (\<lambda>k. k \<noteq> x \<and> P k) zs"
  by (induction zs) auto

lemma first_seen_append:
  "first_seen (xs @ ys) = first_seen xs @ filter (\<lambda>k. k \<notin> set xs) (first_seen ys)"
proof (induction xs)
  case Nil
  then show ?case by simp
next
  case (Cons x xs)
  have "removeAll x (filter (\<lambda>k. k \<notin> set xs) (first_seen ys))
        = filter (\<lambda>k. k \<notin> set (x # xs)) (first_seen ys)"
    by (simp add: removeAll_filter)
  then show ?case by (simp add: Cons.IH)
qed

lemma proto_inherited: "''__proto__'' \<in> set inherited"
  by (simp add: inherited_def)

lemma weatherCounts_names:
  "weatherCounts its counts = Inr counts' \<Longrightarrow> ''__proto__'' \<notin> key_of ` set its \<Longrightarrow>
   map fst counts' = map fst counts
      @ filter (\<lambda>k. k \<notin> fst ` set counts) (first_seen (map key_of its))"
proof (induction its arbitrary: counts)
  case Nil
  then show ?case by simp
next
  case (Cons x its)
  from Cons.prems(1) obtain w where w: "weather_0 x = Some w"
    by (auto split: option.splits)
  let ?c = "key_of x"
  let ?counts = "count_condition ?c counts"
  from Cons.prems(2) have np: "?c \<noteq> ''__proto__''"
    and rest: "''__proto__'' \<notin> key_of ` set its" by auto
  from Cons.prems(1) have "weatherCounts its ?counts = Inr counts'"
    by (simp only: weatherCounts_Cons [OF w])
  from Cons.IH [OF this rest] have IH: "map fst counts' = map fst ?counts
      @ filter (\<lambda>k. k \<notin> fst ` set ?counts) (first_seen (map key_of its))" .
  have rm: "filter (\<lambda>k. k \<noteq> ?c \<and> k \<notin> fst ` set counts) (first_seen (map key_of its))
     = filter (\<lambda>k. k \<notin> fst ` set counts) (removeAll ?c (first_seen (map key_of its)))"
    by (simp add: filter_removeAll)
  show ?case
  proof (cases "?c \<in> fst ` set counts")
    case True
    then have "(\<lambda>k. k \<noteq> ?c \<and> k \<notin> fst ` set counts) = (\<lambda>k. k \<notin> fst ` set counts)"
      by auto
    with True IH rm np show ?thesis
      by (simp add: names_count_condition keys_count_condition)
  next
    case False
    with IH rm np show ?thesis
      by (simp add: names_count_condition keys_count_condition)
  qed
qed

lemma count_value_count_condition:
  "count_value (count_condition c counts) k
     \<le> count_value counts k + (if k = c then 1 else 0)"
  by (auto simp: count_value_def count_condition_def Let_def AList.update_conv'
      split: option.splits tally.splits)

lemma count_value_le:
  "weatherCounts its counts = Inr counts' \<Longrightarrow>
   count_value counts' k \<le> count_value counts k + count_list (map key_of its) k"
proof (induction its arbitrary: counts)
  case Nil
  then show ?case by simp
next
  case (Cons x its)
  from Cons.prems obtain w where w: "weather_0 x = Some w"
    by (auto split: option.splits)
  from Cons.prems have "weatherCounts its (count_condition (key_of x) counts) = Inr counts'"
    by (simp only: weatherCounts_Cons [OF w])
  from Cons.IH [OF this] count_value_count_condition [of "key_of x" counts k]
  show ?case by (simp split: if_splits)
qed

lemma map_of_count_condition_same:
  "c \<notin> set inherited \<Longrightarrow> map_of counts c \<noteq> Some Text \<Longrightarrow>
   map_of (count_condition c counts) c = Some (Count (count_value counts c + 1))"
  using proto_inherited
  by (auto simp: count_value_def count_condition_def Let_def AList.update_conv'
      split: option.splits tally.splits)

lemma map_of_count_condition_other:
  "k \<noteq> c \<Longrightarrow> map_of (count_condition c counts) k = map_of counts k"
  by (simp add: count_condition_def Let_def AList.update_conv')

lemma weatherCounts_count:
  "weatherCounts its counts = Inr counts' \<Longrightarrow> k \<notin> set inherited \<Longrightarrow>
   map_of counts k \<noteq> Some Text \<Longrightarrow>
   map_of counts' k =
     (if k \<in> key_of ` set its
      then Some (Count (count_value counts k + count_list (map key_of its) k))
      else map_of counts k)"
proof (induction its arbitrary: counts)
  case Nil
  then show ?case by simp
next
  case (Cons x its)
  from Cons.prems(1) obtain w where w: "weather_0 x = Some w"
    by (auto split: option.splits)
  let ?counts = "count_condition (key_of x) counts"
  from Cons.prems(1) have run: "weatherCounts its ?counts = Inr counts'"
    by (simp only: weatherCounts_Cons [OF w])
  show ?case
  proof (cases "key_of x = k")
    case True
    from map_of_count_condition_same [OF Cons.prems(2,3)] True
    have new: "map_of ?counts k = Some (Count (count_value counts k + 1))" by simp
    then have "map_of ?counts k \<noteq> Some Text"
      and "count_value ?counts k = count_value counts k + 1"
      by (simp_all add: count_value_def)
    with Cons.IH [OF run Cons.prems(2)] new True show ?thesis by simp
  next
    case False
    then have same: "map_of ?counts k = map_of counts k"
      by (simp add: map_of_count_condition_other)
    then have "count_value ?counts k = count_value counts k"
      by (simp add: count_value_def)
    with Cons.IH [OF run Cons.prems(2)] same Cons.prems(3) False show ?thesis by auto
  qed
qed

lemma find_condition_first:
  "find_condition c its = Inr (Some x) \<Longrightarrow>
   \<exists>pre post. its = pre @ x # post \<and> conditionCategory x = Some c
      \<and> (\<forall>p\<in>set pre. conditionCategory p \<noteq> Some c)"
proof (induction its)
  case Nil
  then show ?case by simp
next
  case (Cons y its)
  from Cons.prems obtain w where w: "weather_0 y = Some w"
    by (auto split: option.splits)
  show ?case
  proof (cases "main w = Some c")
    case True
    with Cons.prems w have "x = y" by simp
    with True w have "y # its = [] @ x # its \<and> conditionCategory x = Some c
        \<and> (\<forall>p\<in>set []. conditionCategory p \<noteq> Some c)"
      by (simp add: conditionCategory_def)
    then show ?thesis by blast
  next
    case False
    with Cons.prems w have "find_condition c its = Inr (Some x)" by simp
    from Cons.IH [OF this] obtain pre post where
      "its = pre @ x # post" "conditionCategory x = Some c"
      "\<forall>p\<in>set pre. conditionCategory p \<noteq> Some c" by blast
    with False w have "y # its = (y # pre) @ x # post \<and> conditionCategory x = Some c
        \<and> (\<forall>p\<in>set (y # pre). conditionCategory p \<noteq> Some c)"
      by (simp add: conditionCategory_def)
    then show ?thesis by blast
  qed
qed

lemma mostCommon_first_max:
  assumes "mostCommon its counts cs (w, m) = Inr (w', m')"
  shows "(w' = w \<and> m' = m \<and> (\<forall>c\<in>set cs. count_value counts c \<le> m))
       \<or> (\<exists>ys c zs it. cs = ys @ c # zs \<and> find_condition c its = Inr (Some it)
             \<and> w' = weather_0 it \<and> m' = count_value counts c \<and> m < count_value counts c
             \<and> (\<forall>y\<in>set ys. count_value counts y < count_value counts c)
             \<and> (\<forall>z\<in>set zs. count_value counts z \<le> count_value counts c))"
  using assms
proof (induction cs arbitrary: w m)
  case Nil
  then show ?case by simp
next
  case (Cons c cs)
  let ?cnt = "count_value counts"
  show ?case
  proof (cases "?cnt c > m")
    case False
    with Cons.prems have "mostCommon its counts cs (w, m) = Inr (w', m')"
      by (simp only: mostCommon_Cons if_False)
    from Cons.IH [OF this] show ?thesis
    proof
      assume "w' = w \<and> m' = m \<and> (\<forall>c\<in>set cs. ?cnt c \<le> m)"
      with False show ?thesis by auto
    next
      assume "\<exists>ys c zs it. cs = ys @ c # zs \<and> find_condition c its = Inr (Some it)
             \<and> w' = weather_0 it \<and> m' = ?cnt c \<and> m < ?cnt c
             \<and> (\<forall>y\<in>set ys. ?cnt y < ?cnt c) \<and> (\<forall>z\<in>set zs. ?cnt z \<le> ?cnt c)"
      then obtain ys c' zs it where *: "cs = ys @ c' # zs" "find_condition c' its = Inr (Some it)"
        "w' = weather_0 it" "m' = ?cnt c'" "m < ?cnt c'"
        "\<forall>y\<in>set ys. ?cnt y < ?cnt c'" "\<forall>z\<in>set zs. ?cnt z \<le> ?cnt c'" by blast
      with False have "c # cs = (c # ys) @ c' # zs \<and> (\<forall>y\<in>set (c # ys). ?cnt y < ?cnt c')"
        by auto
      with * show ?thesis by blast
    qed
  next
    case True
    with Cons.prems obtain it where it: "find_condition c its = Inr (Some it)"
      and run: "mostCommon its counts cs (weather_0 it, ?cnt c) = Inr (w', m')"
      by (auto simp only: mostCommon_Cons if_True split: sum.splits option.splits)
    from Cons.IH [OF run] show ?thesis
    proof
      assume "w' = weather_0 it \<and> m' = ?cnt c \<and> (\<forall>z\<in>set cs. ?cnt z \<le> ?cnt c)"
      with it True have "c # cs = [] @ c # cs \<and> find_condition c its = Inr (Some it)
          \<and> w' = weather_0 it \<and> m' = ?cnt c \<and> m < ?cnt c
          \<and> (\<forall>y\<in>set []. ?cnt y < ?cnt c) \<and> (\<forall>z\<in>set cs. ?cnt z \<le> ?cnt c)" by simp
      then show ?thesis by blast
    next
      assume "\<exists>ys c' zs it'. cs = ys @ c' # zs \<and> find_condition c' its = Inr (Some it')
             \<and> w' = weather_0 it' \<and> m' = ?cnt c' \<and> ?cnt c < ?cnt c'
             \<and> (\<forall>y\<in>set ys. ?cnt y < ?cnt c') \<and> (\<forall>z\<in>set zs. ?cnt z \<le> ?cnt c')"
      then obtain ys c' zs it' where *: "cs = ys @ c' # zs" "find_condition c' its = Inr (Some it')"
        "w' = weather_0 it'" "m' = ?cnt c'" "?cnt c < ?cnt c'"
        "\<forall>y\<in>set ys. ?cnt y < ?cnt c'" "\<forall>z\<in>set zs. ?cnt z \<le> ?cnt c'" by blast
      with True have "c # cs = (c # ys) @ c' # zs \<and> m < ?cnt c'
          \<and> (\<forall>y\<in>set (c # ys). ?cnt y < ?cnt c')"
        by auto
      with * show ?thesis by blast
    qed
  qed
qed

lemma key_of_eq_iff:
  "well_formed x \<Longrightarrow> well_formed y \<Longrightarrow>
   key_of x = key_of y \<longleftrightarrow> conditionCategory x = conditionCategory y"
  by (auto simp: well_formed_def property_key_def)

lemma occurrences_count_list:
  "\<forall>x\<in>set its. well_formed x \<Longrightarrow> well_formed y \<Longrightarrow>
   occurrences its (conditionCategory y) = count_list (map key_of its) (key_of y)"
proof (induction its)
  case Nil
  then show ?case by (simp add: occurrences_def)
next
  case (Cons x its)
  then have "occurrences its (conditionCategory y) = count_list (map key_of its) (key_of y)"
    by simp
  moreover from Cons.prems have "key_of x = key_of y \<longleftrightarrow> conditionCategory x = conditionCategory y"
    by (simp add: key_of_eq_iff)
  ultimately show ?case by (simp add: occurrences_def)
qed

lemma occurrences_Some_count_list:
  "\<forall>x\<in>set its. well_formed x \<Longrightarrow>
   occurrences its (Some c) = count_list (map key_of its) c"
proof (induction its)
  case Nil
  then show ?case by (simp add: occurrences_def)
next
  case (Cons x its)
  then have "occurrences its (Some c) = count_list (map key_of its) c" by simp
  moreover from Cons.prems have "key_of x = c \<longleftrightarrow> conditionCategory x = Some c"
    by (auto simp: well_formed_def property_key_def)
  ultimately show ?case by (simp add: occurrences_def)
qed

lemma dailyForecast_parts:
  assumes "dailyForecast its = Inr d"
  shows "\<exists>counts first rest m. weatherCounts its [] = Inr counts \<and> its = first # rest
           \<and> mostCommon its counts (object_keys counts) (weather_0 first, 0)
               = Inr (day_weather d, m)"
proof -
  from assms obtain counts where counts: "weatherCounts its [] = Inr counts"
    by (auto simp: dailyForecast_def Let_def split: sum.splits)
  from assms counts obtain first rest where its: "its = first # rest"
    by (cases its) (auto simp: dailyForecast_def Let_def)
  from assms counts its obtain w m where
    "mostCommon its counts (object_keys counts) (weather_0 first, 0) = Inr (w, m)"
    and "day_weather d = w"
    by (auto simp: dailyForecast_def Let_def split: sum.splits)
  with counts its show ?thesis by blast
qed

lemma dailyForecast_dominant:
  assumes d: "dailyForecast its = Inr d"
    and wf: "\<forall>x\<in>set its. well_formed x"
    and plain: "\<forall>x\<in>set its. plain_name (key_of x)"
  shows "\<exists>pre x post. its = pre @ x # post \<and> day_weather d = weather_0 x
           \<and> (\<forall>p\<in>set pre. occurrences its (conditionCategory p)
                              < occurrences its (conditionCategory x))
           \<and> (\<forall>q\<in>set post. occurrences its (conditionCategory q)
                              \<le> occurrences its (conditionCategory x))"
proof -
  let ?cats = "map key_of its"
  let ?cnt = "count_list ?cats"
  from dailyForecast_parts [OF d] obtain counts first rest m where
    counts: "weatherCounts its [] = Inr counts" and its: "its = first # rest"
    and pick: "mostCommon its counts (object_keys counts) (weather_0 first, 0)
                 = Inr (day_weather d, m)" by blast
  from plain have noproto: "''__proto__'' \<notin> key_of ` set its"
    using proto_inherited by (auto simp: plain_name_def)
  have names: "map fst counts = first_seen ?cats"
    using weatherCounts_names [OF counts noproto] by simp
  then have keyset: "fst ` set counts = set ?cats"
    by (metis set_first_seen set_map)
  with plain have "\<forall>k\<in>fst ` set counts. \<not> is_array_index k"
    by (auto simp: plain_name_def)
  then have keys: "object_keys counts = first_seen ?cats"
    by (simp add: object_keys_plain names)
  have cnt: "\<forall>k\<in>set ?cats. count_value counts k = ?cnt k"
  proof
    fix k assume k: "k \<in> set ?cats"
    with plain have "k \<notin> set inherited" by (auto simp: plain_name_def)
    from weatherCounts_count [OF counts this] k
    show "count_value counts k = ?cnt k" by (simp add: count_value_def)
  qed
  from pick have pick': "mostCommon its counts (first_seen ?cats) (weather_0 first, 0)
      = Inr (day_weather d, m)"
    by (simp add: keys)
  have "key_of first \<in> set (first_seen ?cats)" by (simp add: set_first_seen its)
  moreover have "?cnt (key_of first) > 0" by (simp add: its)
  ultimately have "\<not> (\<forall>c\<in>set (first_seen ?cats). count_value counts c \<le> 0)"
    using cnt by (auto simp: set_first_seen)
  with mostCommon_first_max [OF pick'] obtain ys c zs x where
    split: "first_seen ?cats = ys @ c # zs"
    and found: "find_condition c its = Inr (Some x)"
    and wx: "day_weather d = weather_0 x"
    and before0: "\<forall>y\<in>set ys. count_value counts y < count_value counts c"
    and after0: "\<forall>z\<in>set zs. count_value counts z \<le> count_value counts c"
    by blast
  have sub: "set ys \<subseteq> set ?cats" "c \<in> set ?cats" "set zs \<subseteq> set ?cats"
    using set_first_seen [of ?cats] by (simp_all only: split) auto
  from sub(2) cnt have cnt_c: "count_value counts c = ?cnt c" by blast
  have before: "\<forall>y\<in>set ys. ?cnt y < ?cnt c"
  proof
    fix y assume y: "y \<in> set ys"
    with sub(1) cnt have "count_value counts y = ?cnt y" by blast
    with before0 y cnt_c show "?cnt y < ?cnt c" by (metis)
  qed
  have after: "\<forall>z\<in>set zs. ?cnt z \<le> ?cnt c"
  proof
    fix z assume z: "z \<in> set zs"
    with sub(3) cnt have "count_value counts z = ?cnt z" by blast
    with after0 z cnt_c show "?cnt z \<le> ?cnt c" by (metis)
  qed
  from find_condition_first [OF found] obtain pre post where
    decomp: "its = pre @ x # post" and cx: "conditionCategory x = Some c"
    and notc: "\<forall>p\<in>set pre. conditionCategory p \<noteq> Some c" by blast
  from cx have kx: "key_of x = c" by (simp add: property_key_def)
  from decomp wf have wfx: "well_formed x" and wfpre: "\<forall>p\<in>set pre. well_formed p"
    and wfpost: "\<forall>q\<in>set post. well_formed q" by auto
  have c_pre: "c \<notin> set (map key_of pre)"
  proof
    assume "c \<in> set (map key_of pre)"
    then obtain p where p: "p \<in> set pre" "key_of p = c" by auto
    with wfpre have "well_formed p" by blast
    from key_of_eq_iff [OF this wfx] p kx have "conditionCategory p = conditionCategory x"
      by simp
    with notc p cx show False by simp
  qed
  have "first_seen ?cats = first_seen (map key_of pre)
      @ filter (\<lambda>k. k \<notin> set (map key_of pre)) (first_seen (c # map key_of post))"
    using first_seen_append [of "map key_of pre" "c # map key_of post"]
    by (simp add: decomp kx)
  with c_pre obtain B where split': "first_seen ?cats = first_seen (map key_of pre) @ c # B"
    by simp
  have dist: "distinct (ys @ c # zs)"
    using distinct_first_seen [of ?cats] by (simp only: split)
  from dist have "c \<notin> set ys" "c \<notin> set zs" by auto
  from append_Cons_eq_iff [OF this, of "first_seen (map key_of pre)" B] split split'
  have ys: "ys = first_seen (map key_of pre)" by simp
  have pre_lt: "\<forall>p\<in>set pre. occurrences its (conditionCategory p)
                              < occurrences its (conditionCategory x)"
  proof
    fix p assume p: "p \<in> set pre"
    then have "key_of p \<in> set ys" by (simp add: ys set_first_seen)
    with before have "?cnt (key_of p) < ?cnt c" by blast
    moreover from p wfpre have "well_formed p" by blast
    ultimately show "occurrences its (conditionCategory p)
                              < occurrences its (conditionCategory x)"
      using wf wfx kx by (simp add: occurrences_count_list)
  qed
  have post_le: "\<forall>q\<in>set post. occurrences its (conditionCategory q)
                              \<le> occurrences its (conditionCategory x)"
  proof
    fix q assume q: "q \<in> set post"
    then have "key_of q \<in> set (first_seen ?cats)" by (simp add: set_first_seen decomp)
    then have "key_of q \<in> set ys \<or> key_of q = c \<or> key_of q \<in> set zs"
      by (auto simp: split)
    with before after have "?cnt (key_of q) \<le> ?cnt c" by (auto simp: less_imp_le)
    moreover from q wfpost have "well_formed q" by blast
    ultimately show "occurrences its (conditionCategory q)
                              \<le> occurrences its (conditionCategory x)"
      using wf wfx kx by (simp add: occurrences_count_list)
  qed
  from decomp wx pre_lt post_le show ?thesis by blast
qed

text \<open>A category that is the most frequent of a day without a tie, and is not the name
  of an inherited property, is the category of the day's weather.\<close>

lemma dailyForecast_most_frequent:
  assumes d: "dailyForecast its = Inr d"
    and wf: "\<forall>x\<in>set its. well_formed x"
    and c: "c \<notin> set inherited"
    and top: "most_frequent c its"
  shows "\<exists>w. day_weather d = Some w \<and> main w = Some c"
proof -
  let ?cats = "map key_of its"
  from dailyForecast_parts [OF d] obtain counts first rest m where
    counts: "weatherCounts its [] = Inr counts" and its: "its = first # rest"
    and pick: "mostCommon its counts (object_keys counts) (weather_0 first, 0)
                 = Inr (day_weather d, m)" by blast
  have occ_c: "occurrences its (Some c) > 0"
  proof (cases "conditionCategory first = Some c")
    case True
    then show ?thesis by (simp add: its occurrences_def)
  next
    case False
    with top its have "occurrences its (conditionCategory first) < occurrences its (Some c)"
      by (simp add: most_frequent_def)
    then show ?thesis by simp
  qed
  then have "count_list ?cats c \<noteq> 0"
    by (simp add: occurrences_Some_count_list [OF wf])
  then have c_cats: "c \<in> set ?cats"
    by (simp only: count_list_0_iff) simp
  from weatherCounts_count [OF counts c] c_cats
  have mc: "map_of counts c = Some (Count (count_list ?cats c))"
    by (simp add: count_value_def)
  then have cv: "count_value counts c = occurrences its (Some c)"
    by (simp add: count_value_def occurrences_Some_count_list [OF wf])
  from mc have c_key: "c \<in> set (object_keys counts)"
    by (simp add: set_object_keys) (metis map_of_SomeD image_eqI fst_conv)
  from occ_c cv have "0 < count_value counts c" by simp
  with c_key have "\<not> (\<forall>k\<in>set (object_keys counts). count_value counts k \<le> 0)"
    by (auto simp: not_le)
  with mostCommon_first_max [OF pick] obtain ys k zs x where
    split: "object_keys counts = ys @ k # zs"
    and found: "find_condition k its = Inr (Some x)"
    and wx: "day_weather d = weather_0 x"
    and before: "\<forall>y\<in>set ys. count_value counts y < count_value counts k"
    and after: "\<forall>z\<in>set zs. count_value counts z \<le> count_value counts k"
    by blast
  from c_key before after have ge: "count_value counts c \<le> count_value counts k"
    by (auto simp: split less_imp_le)
  from find_condition_Some [OF found] have x: "x \<in> set its" "conditionCategory x = Some k"
    by simp_all
  have "k = c"
  proof (rule ccontr)
    assume "k \<noteq> c"
    with x top have "occurrences its (Some k) < occurrences its (Some c)"
      by (auto simp: most_frequent_def)
    moreover from count_value_le [OF counts, of k]
    have "count_value counts k \<le> occurrences its (Some k)"
      by (simp add: count_value_def occurrences_Some_count_list [OF wf])
    ultimately show False using ge cv by simp
  qed
  with x(2) wx show ?thesis
    by (auto simp: conditionCategory_def split: option.splits)
qed

lemma occurrences_mset: "mset xs = mset ys \<Longrightarrow> occurrences xs c = occurrences ys c"
proof -
  assume "mset xs = mset ys"
  then have "mset (filter (\<lambda>it. conditionCategory it = c) xs)
      = mset (filter (\<lambda>it. conditionCategory it = c) ys)" by simp
  then show ?thesis unfolding occurrences_def by (metis size_mset)
qed

lemma most_frequent_mset:
  assumes "mset xs = mset ys" and "most_frequent c xs"
  shows "most_frequent c ys"
proof -
  from assms(1) have "set xs = set ys" by (rule mset_eq_setD)
  with assms(2) occurrences_mset [OF assms(1)] show ?thesis
    by (simp add: most_frequent_def)
qed

lemma distinct_map_eq:
  "distinct (map f xs) \<Longrightarrow> x \<in> set xs \<Longrightarrow> y \<in> set xs \<Longrightarrow> f x = f y \<Longrightarrow> x = y"
  by (metis distinct_map inj_onD)

lemma sorted_first_least:
  "sorted (map f (x # xs)) \<Longrightarrow> y \<in> set (x # xs) \<Longrightarrow> f x \<le> f y"
  by auto

subsection \<open>The store\<close>

lemma deref_update_other:
  "b \<notin> snd ` set g \<Longrightarrow> deref (h[b := v]) g = deref h g"
  by (induction g) (auto simp: deref_def)

lemma deref_append:
  "\<forall>b\<in>snd ` set g. b < length h \<Longrightarrow> deref (h @ h2) g = deref h g"
  by (induction g) (auto simp: deref_def nth_append)

lemma map_of_deref:
  "map_of (deref h g) k = map_option (\<lambda>a. h ! a) (map_of g k)"
  by (induction g) (auto simp: deref_def)

lemma keys_deref: "map fst (deref h g) = map fst g"
  by (induction g) (auto simp: deref_def)

lemma object_keys_deref: "object_keys (deref h g) = object_keys g"
  by (simp add: object_keys_def keys_deref)

lemma update_new: "map_of g k = None \<Longrightarrow> AList.update k v g = g @ [(k, v)]"
  by (induction g) auto

lemma deref_push:
  "map_of g k = Some a \<Longrightarrow> distinct (map snd g) \<Longrightarrow> \<forall>b\<in>snd ` set g. b < length h \<Longrightarrow>
   deref (h[a := v]) g = AList.update k v (deref h g)"
proof (induction g)
  case Nil
  then show ?case by simp
next
  case (Cons p g)
  obtain k' b where p: "p = (k', b)" by (cases p)
  show ?case
  proof (cases "k' = k")
    case True
    with Cons.prems p have "b = a" and "a \<notin> snd ` set g" by auto
    with True p Cons.prems(3) show ?thesis
      by (simp add: deref_def deref_update_other [unfolded deref_def])
  next
    case False
    with Cons.prems p have m: "map_of g k = Some a" by simp
    then have "a \<in> snd ` set g" by (metis map_of_SomeD image_eqI snd_conv)
    with Cons.prems(2) p have "b \<noteq> a" by auto
    with False p Cons.IH [OF m] Cons.prems(2,3) show ?thesis
      by (simp add: deref_def)
  qed
qed

lemma group_item_in_step:
  assumes "grouping_inv h h' g"
  shows "\<exists>h'' g''. group_item_in tz it h' g = (h'', Inr g'')
           \<and> grouping_inv h h'' g'' \<and> deref h'' g'' = group_item tz it (deref h' g)"
proof (cases "map_of g (tz (dt it * 1000))")
  case None
  let ?day = "tz (dt it * 1000)"
  let ?h'' = "h' @ [[it]]" and ?g'' = "g @ [(?day, length h')]"
  from None have run: "group_item_in tz it h' g = (?h'', Inr ?g'')"
    by (simp add: group_item_in_def Let_def AList.update_conv') (simp add: update_new)
  from assms have inv: "length h \<le> length h'" "take (length h) h' = h"
    "\<forall>b\<in>snd ` set g. length h \<le> b \<and> b < length h'" "distinct (map snd g)"
    by (simp_all add: grouping_inv_def)
  have "grouping_inv h ?h'' ?g''"
    using inv by (auto simp: grouping_inv_def)
  moreover have "deref ?h'' ?g'' = deref h' g @ [(?day, [it])]"
  proof -
    from inv(3) have "\<forall>b\<in>snd ` set g. b < length h'" by auto
    then have "deref (h' @ [[it]]) g = deref h' g" by (rule deref_append)
    then show ?thesis by (simp add: deref_def)
  qed
  moreover from None have "map_of (deref h' g) ?day = None" by (simp add: map_of_deref)
  then have "group_item tz it (deref h' g) = deref h' g @ [(?day, [it])]"
    by (simp add: group_item_def Let_def update_new)
  ultimately show ?thesis using run by simp
next
  case (Some a)
  let ?day = "tz (dt it * 1000)"
  let ?h'' = "h'[a := h' ! a @ [it]]"
  from Some have run: "group_item_in tz it h' g = (?h'', Inr g)"
    by (simp add: group_item_in_def Let_def)
  from assms have inv: "length h \<le> length h'" "take (length h) h' = h"
    "\<forall>b\<in>snd ` set g. length h \<le> b \<and> b < length h'" "distinct (map snd g)"
    by (simp_all add: grouping_inv_def)
  from Some have a_in: "a \<in> snd ` set g" by (metis map_of_SomeD image_eqI snd_conv)
  with inv(3) have a: "length h \<le> a" "a < length h'" by auto
  have "take (length h) ?h'' = h" using inv(2) a(1) by simp
  with inv have "grouping_inv h ?h'' g" by (simp add: grouping_inv_def)
  moreover have "deref ?h'' g = AList.update ?day (h' ! a @ [it]) (deref h' g)"
    using deref_push [OF Some inv(4)] inv(3) by simp
  moreover from Some have "map_of (deref h' g) ?day = Some (h' ! a)" by (simp add: map_of_deref)
  then have "group_item tz it (deref h' g) = AList.update ?day (h' ! a @ [it]) (deref h' g)"
    by (simp add: group_item_def Let_def)
  ultimately show ?thesis using run by simp
qed

lemma grouping_inv_nth:
  "grouping_inv h h' g \<Longrightarrow> a < length h \<Longrightarrow> h' ! a = h ! a"
  by (metis grouping_inv_def nth_take)

lemma forEach_in_fold:
  assumes "grouping_inv h h' g" and "a < length h" and "\<forall>i\<in>set is. i < length (h ! a)"
  shows "\<exists>h'' g''. forEach_in tz a is h' g = (h'', Inr g'')
           \<and> grouping_inv h h'' g''
           \<and> deref h'' g'' = fold (group_item tz) (map (\<lambda>i. h ! a ! i) is) (deref h' g)"
  using assms
proof (induction "is" arbitrary: h' g)
  case Nil
  then show ?case by simp
next
  case (Cons i rest)
  from Cons.prems have i: "i < length (h ! a)" and rest: "\<forall>i\<in>set rest. i < length (h ! a)"
    by simp_all
  from grouping_inv_nth [OF Cons.prems(1,2)] have ha: "h' ! a = h ! a" .
  from group_item_in_step [OF Cons.prems(1), of tz "h ! a ! i"] obtain h1 g1 where
    step: "group_item_in tz (h ! a ! i) h' g = (h1, Inr g1)"
    and inv1: "grouping_inv h h1 g1"
    and d1: "deref h1 g1 = group_item tz (h ! a ! i) (deref h' g)" by blast
  from Cons.IH [OF inv1 Cons.prems(2) rest] obtain h2 g2 where
    "forEach_in tz a rest h1 g1 = (h2, Inr g2)" "grouping_inv h h2 g2"
    "deref h2 g2 = fold (group_item tz) (map (\<lambda>i. h ! a ! i) rest) (deref h1 g1)" by blast
  with i ha step d1 show ?case by simp
qed

lemma aggregate_in_refines:
  assumes "a < length h"
  shows "\<exists>h'. aggregate_in tz a h = (h', aggregate tz (h ! a))
           \<and> length h \<le> length h' \<and> take (length h) h' = h"
proof -
  have inv0: "grouping_inv h h []" by (simp add: grouping_inv_def)
  have idx: "\<forall>i\<in>set [0..<length (h ! a)]. i < length (h ! a)" by simp
  from forEach_in_fold [OF inv0 assms idx, of tz] obtain h1 g1 where
    run: "forEach_in tz a [0..<length (h ! a)] h [] = (h1, Inr g1)"
    and inv: "grouping_inv h h1 g1"
    and d: "deref h1 g1 = fold (group_item tz) (map (\<lambda>i. h ! a ! i) [0..<length (h ! a)]) (deref h [])"
    by blast
  have "map (\<lambda>i. h ! a ! i) [0..<length (h ! a)] = h ! a" by (rule map_nth)
  with d have d': "deref h1 g1 = groupedByDay tz (h ! a)"
    by (simp add: groupedByDay_def deref_def)
  have "aggregate_in tz a h = (h1, aggregate tz (h ! a))"
    using run d' object_keys_deref [of h1 g1]
    by (simp add: aggregate_in_def aggregate_def Let_def)
  with inv show ?thesis by (simp add: grouping_inv_def)
qed

section \<open>The claims\<close>

subsection \<open>Evaluation on concrete forecasts\<close>

lemma utc_0h: "en_US_UTC 0 = ''1/1/1970''" by code_simp
lemma utc_3h: "en_US_UTC 10800000 = ''1/1/1970''" by code_simp
lemma utc_6h: "en_US_UTC 21600000 = ''1/1/1970''" by code_simp
lemma utc_9h: "en_US_UTC 32400000 = ''1/1/1970''" by code_simp
lemma utc_12h: "en_US_UTC 43200000 = ''1/1/1970''" by code_simp
lemma utc_25h: "en_US_UTC 90000000 = ''1/2/1970''" by code_simp

lemmas utc_days = utc_0h utc_3h utc_6h utc_9h utc_12h utc_25h

lemmas run_defs = aggregate_def groupedByDay_def group_item_def dailyForecast_def
  object_keys_def is_array_index_def is_digit_def math_min_def math_max_def weather_0_def
  property_key_def count_condition_def inherited_def sample_def entry_def Let_def

lemma aggregate_two_days: "aggregate en_US_UTC two_days = Inr [first_day, second_day]"
  by (simp add: two_days_def day_one_def first_day_def second_day_def run_defs utc_days)

lemma well_formed_two_days: "\<forall>x\<in>set two_days. well_formed x"
  by (simp add: two_days_def day_one_def sample_def entry_def well_formed_def
      conditionCategory_def weather_0_def)

lemma entries_two_days: "\<forall>x\<in>set two_days. weather x \<noteq> []"
  by (simp add: two_days_def day_one_def sample_def)

lemma aggregate_day_one: "aggregate en_US_UTC day_one = Inr [first_day]"
  by (simp add: day_one_def first_day_def run_defs utc_days)

lemma aggregate_tied_day: "aggregate en_US_UTC tied_day = Inr [tied_daily]"
  by (simp add: tied_day_def tied_daily_def run_defs utc_days)

lemma well_formed_tied_day: "\<forall>x\<in>set tied_day. well_formed x"
  by (simp add: tied_day_def sample_def entry_def well_formed_def
      conditionCategory_def weather_0_def)

lemma plain_tied_day:
  "\<forall>x\<in>set tied_day. \<forall>c. conditionCategory x = Some c \<longrightarrow> plain_name c"
  by (simp add: tied_day_def sample_def entry_def conditionCategory_def weather_0_def
      plain_name_def inherited_def is_array_index_def is_digit_def)

lemma first_day_in: "first_day \<in> set [first_day, second_day]"
  by simp

lemma second_day_in: "second_day \<in> set [first_day, second_day]"
  by simp

subsection \<open>C1: one daily forecast per day, sorted\<close>

text \<open>
  C1. For every list of items that all carry a first condition entry with a category,
  the aggregation returns a list of daily forecasts (it does not raise) that is sorted
  ascending by the field \<open>date\<close>, holds no two entries of the same day, covers exactly
  the days of the input, has as many entries as the input has distinct days, and has for
  every item exactly one entry of the item's day; the entry of a day holds exactly the
  items of that day. The day of an entry is the date string of its \<open>date\<close>.
\<close>

theorem aggregate_one_summary_per_day:
  assumes "\<forall>x\<in>set samples. well_formed x"
  shows "\<exists>out. aggregate tz samples = Inr out
           \<and> sorted (map date out)
           \<and> distinct (map (\<lambda>s. tz (date s)) out)
           \<and> set (map (\<lambda>s. tz (date s)) out) = (\<lambda>x. tz (dt x * 1000)) ` set samples
           \<and> length out = card ((\<lambda>x. tz (dt x * 1000)) ` set samples)
           \<and> (\<forall>x\<in>set samples. \<exists>!s. s \<in> set out \<and> tz (date s) = tz (dt x * 1000))
           \<and> (\<forall>s\<in>set out. items s = filter (\<lambda>x. tz (dt x * 1000) = tz (date s)) samples)"
proof -
  from aggregate_total [OF assms] obtain out where out: "aggregate tz samples = Inr out"
    by blast
  note days = aggregate_days [OF out]
  have len: "length out = card ((\<lambda>x. tz (dt x * 1000)) ` set samples)"
    using distinct_card [OF days(2)] days(3) by simp
  have uniq: "\<forall>x\<in>set samples. \<exists>!s. s \<in> set out \<and> tz (date s) = tz (dt x * 1000)"
  proof
    fix x assume "x \<in> set samples"
    then have "tz (dt x * 1000) \<in> set (map (\<lambda>s. tz (date s)) out)"
      by (simp only: days(3)) simp
    then obtain s where s: "s \<in> set out" "tz (date s) = tz (dt x * 1000)" by auto
    show "\<exists>!s. s \<in> set out \<and> tz (date s) = tz (dt x * 1000)"
    proof (rule ex1I [of _ s])
      show "s \<in> set out \<and> tz (date s) = tz (dt x * 1000)" using s by simp
    next
      fix s' assume "s' \<in> set out \<and> tz (date s') = tz (dt x * 1000)"
      with s show "s' = s"
        using distinct_map_eq [OF days(2), of s' s] by simp
    qed
  qed
  have its: "\<forall>s\<in>set out. items s = filter (\<lambda>x. tz (dt x * 1000) = tz (date s)) samples"
  proof
    fix s assume "s \<in> set out"
    from dailyForecast_Inr(2) [OF aggregate_daily(1) [OF out this]]
    show "items s = filter (\<lambda>x. tz (dt x * 1000) = tz (date s)) samples" .
  qed
  from out days(4) days(2) days(3) len uniq its show ?thesis by blast
qed

theorem aggregate_one_summary_per_day_witness:
  "(\<exists>out. aggregate en_US_UTC two_days = Inr out
           \<and> sorted (map date out)
           \<and> distinct (map (\<lambda>s. en_US_UTC (date s)) out)
           \<and> set (map (\<lambda>s. en_US_UTC (date s)) out)
               = (\<lambda>x. en_US_UTC (dt x * 1000)) ` set two_days
           \<and> length out = card ((\<lambda>x. en_US_UTC (dt x * 1000)) ` set two_days)
           \<and> (\<forall>x\<in>set two_days.
                 \<exists>!s. s \<in> set out \<and> en_US_UTC (date s) = en_US_UTC (dt x * 1000))
           \<and> (\<forall>s\<in>set out.
                 items s = filter (\<lambda>x. en_US_UTC (dt x * 1000) = en_US_UTC (date s)) two_days))"
  by (rule aggregate_one_summary_per_day [OF well_formed_two_days])

subsection \<open>C2: minimum and maximum temperature\<close>

text \<open>
  C2. Every daily forecast of the output holds the items of its day, at least one, and
  its \<open>minTemp\<close> is a finite number that is at most the \<open>temp_min\<close> of every item of
  the day and equal to one of them; its \<open>maxTemp\<close> is a finite number that is at least
  the \<open>temp_max\<close> of every item of the day and equal to one of them.
\<close>

theorem daily_min_max:
  assumes "aggregate tz samples = Inr out" and "s \<in> set out"
  shows "items s = filter (\<lambda>x. tz (dt x * 1000) = tz (date s)) samples \<and> items s \<noteq> []
       \<and> (\<exists>lo hi. minTemp s = Num lo \<and> maxTemp s = Num hi
             \<and> (\<forall>x\<in>set (items s). lo \<le> temp_min x \<and> temp_max x \<le> hi)
             \<and> (\<exists>x\<in>set (items s). temp_min x = lo)
             \<and> (\<exists>x\<in>set (items s). temp_max x = hi))"
proof -
  let ?its = "filter (\<lambda>x. tz (dt x * 1000) = tz (date s)) samples"
  note d = dailyForecast_Inr [OF aggregate_daily(1) [OF assms]]
  from d(1,2) have its: "items s = ?its" "items s \<noteq> []" by simp_all
  let ?lo = "Min (temp_min ` set (items s))" and ?hi = "Max (temp_max ` set (items s))"
  from its(2) have fin: "finite (temp_min ` set (items s))" "temp_min ` set (items s) \<noteq> {}"
    "finite (temp_max ` set (items s))" "temp_max ` set (items s) \<noteq> {}" by simp_all
  have "\<forall>x\<in>set (items s). ?lo \<le> temp_min x \<and> temp_max x \<le> ?hi" by simp
  moreover from Min_in [OF fin(1,2)] have "\<exists>x\<in>set (items s). temp_min x = ?lo" by auto
  moreover from Max_in [OF fin(3,4)] have "\<exists>x\<in>set (items s). temp_max x = ?hi" by auto
  moreover from d(4,5) have "minTemp s = Num ?lo" "maxTemp s = Num ?hi"
    by (simp_all add: its(1))
  ultimately show ?thesis using its by blast
qed

theorem daily_min_max_witness:
  "aggregate en_US_UTC two_days = Inr [first_day, second_day]
   \<and> first_day \<in> set [first_day, second_day]
   \<and> (items first_day
         = filter (\<lambda>x. en_US_UTC (dt x * 1000) = en_US_UTC (date first_day)) two_days
       \<and> items first_day \<noteq> []
       \<and> (\<exists>lo hi. minTemp first_day = Num lo \<and> maxTemp first_day = Num hi
             \<and> (\<forall>x\<in>set (items first_day). lo \<le> temp_min x \<and> temp_max x \<le> hi)
             \<and> (\<exists>x\<in>set (items first_day). temp_min x = lo)
             \<and> (\<exists>x\<in>set (items first_day). temp_max x = hi)))"
  by (rule conjI [OF aggregate_two_days conjI [OF first_day_in
        daily_min_max [OF aggregate_two_days first_day_in]]])

subsection \<open>C3: the dominant condition\<close>

text \<open>
  C3, as stated, fails. Two items of one day, the later one first in the list, with one
  occurrence of each category: the category of the item that comes first in the list
  (\<^verbatim>\<open>Clouds\<close>, at 03:00) wins, not the one that is earliest in time (\<^verbatim>\<open>Rain\<close>, at 00:00).
\<close>

theorem dominant_tie_counterexample:
  "aggregate en_US_UTC
       [sample 10800 10 14 [entry ''Clouds'' ''few clouds''],
        sample 0 8 12 [entry ''Rain'' ''light rain'']]
     = Inr [\<lparr>date = 10800000, minTemp = Num 8, maxTemp = Num 14,
              day_weather = Some (entry ''Clouds'' ''few clouds''),
              items = [sample 10800 10 14 [entry ''Clouds'' ''few clouds''],
                       sample 0 8 12 [entry ''Rain'' ''light rain'']]\<rparr>]"
  by (simp add: run_defs utc_days)

text \<open>
  C3, amended. When every item has a first condition entry with a category and every
  category is a plain name (no array index, no name of a property of
  \<^verbatim>\<open>Object.prototype\<close>), every daily forecast takes its weather from the first item of the
  day, in the order of the input list, whose category has the highest number of
  occurrences in the day: every item of the day before it has a category with strictly
  fewer occurrences, every item after it one with at most as many. The order of the day's
  items is that of the input, so it is the order in time when the input is sorted by
  \<open>dt\<close>.
\<close>

theorem dominant_first_in_input_order:
  assumes "aggregate tz samples = Inr out" and "s \<in> set out"
    and "\<forall>x\<in>set samples. well_formed x"
    and "\<forall>x\<in>set samples. \<forall>c. conditionCategory x = Some c \<longrightarrow> plain_name c"
  shows "\<exists>pre x post. items s = pre @ x # post
           \<and> pre @ x # post = filter (\<lambda>x. tz (dt x * 1000) = tz (date s)) samples
           \<and> day_weather s = weather_0 x
           \<and> (\<forall>p\<in>set pre. occurrences (items s) (conditionCategory p)
                              < occurrences (items s) (conditionCategory x))
           \<and> (\<forall>q\<in>set post. occurrences (items s) (conditionCategory q)
                              \<le> occurrences (items s) (conditionCategory x))
           \<and> (sorted (map dt samples) \<longrightarrow> sorted (map dt (items s)))"
proof -
  let ?its = "filter (\<lambda>x. tz (dt x * 1000) = tz (date s)) samples"
  have d: "dailyForecast ?its = Inr s" by (rule aggregate_daily(1) [OF assms(1,2)])
  have its: "items s = ?its" by (rule dailyForecast_Inr(2) [OF d])
  from assms(3) have wf: "\<forall>x\<in>set ?its. well_formed x" by simp
  have plain: "\<forall>x\<in>set ?its. plain_name (key_of x)"
  proof
    fix x assume "x \<in> set ?its"
    then have x: "x \<in> set samples" by simp
    with assms(3) obtain c where c: "conditionCategory x = Some c"
      by (auto simp: well_formed_def)
    with assms(4) x have "plain_name c" by blast
    with c show "plain_name (key_of x)" by (simp add: property_key_def)
  qed
  from dailyForecast_dominant [OF d wf plain] obtain pre x post where
    "?its = pre @ x # post" "day_weather s = weather_0 x"
    "\<forall>p\<in>set pre. occurrences ?its (conditionCategory p) < occurrences ?its (conditionCategory x)"
    "\<forall>q\<in>set post. occurrences ?its (conditionCategory q) \<le> occurrences ?its (conditionCategory x)"
    by blast
  moreover have "sorted (map dt samples) \<longrightarrow> sorted (map dt (items s))"
    by (simp add: its sorted_filter)
  ultimately show ?thesis by (simp add: its) blast
qed

text \<open>
  The witness is a day in the order of time with a tie: \<^verbatim>\<open>Rain\<close> and \<^verbatim>\<open>Clouds\<close> occur twice
  each, \<^verbatim>\<open>Clear\<close> once and first. The weather is that of the first \<^verbatim>\<open>Rain\<close> item, the
  second of the day.
\<close>

lemma tied_daily_in: "tied_daily \<in> set [tied_daily]"
  by simp

lemma sorted_tied_day: "sorted (map dt tied_day)"
  by (simp add: tied_day_def sample_def)

lemma occurrences_tied_day:
  "occurrences tied_day (Some ''Clear'') = 1 \<and> occurrences tied_day (Some ''Rain'') = 2
   \<and> occurrences tied_day (Some ''Clouds'') = 2"
  by (simp add: occurrences_def tied_day_def sample_def entry_def conditionCategory_def
      weather_0_def)

lemma tied_daily_weather:
  "day_weather tied_daily = weather_0 (tied_day ! 1)
   \<and> day_weather tied_daily = Some (entry ''Rain'' ''light rain'')"
  by (simp add: tied_daily_def tied_day_def sample_def weather_0_def)

theorem dominant_first_in_input_order_witness:
  "aggregate en_US_UTC tied_day = Inr [tied_daily]
   \<and> tied_daily \<in> set [tied_daily]
   \<and> sorted (map dt tied_day)
   \<and> (occurrences tied_day (Some ''Clear'') = 1 \<and> occurrences tied_day (Some ''Rain'') = 2
        \<and> occurrences tied_day (Some ''Clouds'') = 2)
   \<and> (day_weather tied_daily = weather_0 (tied_day ! 1)
        \<and> day_weather tied_daily = Some (entry ''Rain'' ''light rain''))
   \<and> (\<exists>pre x post. items tied_daily = pre @ x # post
           \<and> pre @ x # post
               = filter (\<lambda>x. en_US_UTC (dt x * 1000) = en_US_UTC (date tied_daily)) tied_day
           \<and> day_weather tied_daily = weather_0 x
           \<and> (\<forall>p\<in>set pre. occurrences (items tied_daily) (conditionCategory p)
                              < occurrences (items tied_daily) (conditionCategory x))
           \<and> (\<forall>q\<in>set post. occurrences (items tied_daily) (conditionCategory q)
                              \<le> occurrences (items tied_daily) (conditionCategory x))
           \<and> (sorted (map dt tied_day) \<longrightarrow> sorted (map dt (items tied_daily))))"
  by (rule conjI [OF aggregate_tied_day conjI [OF tied_daily_in conjI [OF sorted_tied_day
        conjI [OF occurrences_tied_day conjI [OF tied_daily_weather
          dominant_first_in_input_order [OF aggregate_tied_day tied_daily_in
            well_formed_tied_day plain_tied_day]]]]]])

text \<open>
  Why the names of inherited properties are excluded: the count of such a category is a
  string, which is never greater than \<^verbatim>\<open>maxCount\<close>. Here \<^verbatim>\<open>toString\<close> and \<^verbatim>\<open>Rain\<close> occur
  once each, \<^verbatim>\<open>toString\<close> first, and the weather is that of \<^verbatim>\<open>Rain\<close>.
\<close>

lemma inherited_name_never_wins:
  "aggregate en_US_UTC
       [sample 0 8 12 [entry ''toString'' ''clear sky''],
        sample 10800 10 14 [entry ''Rain'' ''light rain'']]
     = Inr [\<lparr>date = 0, minTemp = Num 8, maxTemp = Num 14,
              day_weather = Some (entry ''Rain'' ''light rain''),
              items = [sample 0 8 12 [entry ''toString'' ''clear sky''],
                       sample 10800 10 14 [entry ''Rain'' ''light rain'']]\<rparr>]"
  by (simp add: run_defs utc_days)

subsection \<open>C4: the date of a daily forecast\<close>

text \<open>
  C4, as stated, fails. Two items of one day, 06:00 before 03:00 in the list: the date of
  the daily forecast is that of the item inserted first (06:00), not the smallest one.
\<close>

theorem daily_date_counterexample:
  "aggregate en_US_UTC
       [sample 21600 12 16 [entry ''Rain'' ''light rain''],
        sample 10800 15 19 [entry ''Clear'' ''clear sky'']]
     = Inr [\<lparr>date = 21600000, minTemp = Num 12, maxTemp = Num 19,
              day_weather = Some (entry ''Rain'' ''light rain''),
              items = [sample 21600 12 16 [entry ''Rain'' ''light rain''],
                       sample 10800 15 19 [entry ''Clear'' ''clear sky'']]\<rparr>]
   \<and> (21600000 :: int) \<noteq> 10800 * 1000"
  by (simp add: run_defs utc_days)

text \<open>
  C4, amended. The date of every daily forecast is the timestamp of the first item of its
  day in the order of the input list (the item inserted first into the group), in
  milliseconds; when the input list is sorted by \<open>dt\<close>, no item of the day has a smaller
  timestamp.
\<close>

theorem daily_date_first_inserted:
  assumes "aggregate tz samples = Inr out" and "s \<in> set out"
  shows "\<exists>first rest. items s = first # rest
           \<and> first # rest = filter (\<lambda>x. tz (dt x * 1000) = tz (date s)) samples
           \<and> date s = dt first * 1000
           \<and> (sorted (map dt samples) \<longrightarrow> (\<forall>x\<in>set (items s). dt first \<le> dt x))"
proof -
  let ?its = "filter (\<lambda>x. tz (dt x * 1000) = tz (date s)) samples"
  note d = dailyForecast_Inr [OF aggregate_daily(1) [OF assms]]
  from d(1) obtain first rest where fr: "?its = first # rest" by (cases ?its) auto
  have "sorted (map dt samples) \<longrightarrow> (\<forall>x\<in>set (items s). dt first \<le> dt x)"
  proof (intro impI ballI)
    fix x assume "sorted (map dt samples)" and x: "x \<in> set (items s)"
    then have "sorted (map dt ?its)" by (simp add: sorted_filter)
    with fr have "sorted (map dt (first # rest))" by simp
    moreover from x d(2) fr have "x \<in> set (first # rest)" by simp
    ultimately show "dt first \<le> dt x" by (rule sorted_first_least)
  qed
  with d(2,3) fr show ?thesis by simp
qed

text \<open>The witness is a day of five items in the order of time: the date is the timestamp
  of the first of them, the smallest of the day.\<close>

theorem daily_date_first_inserted_witness:
  "aggregate en_US_UTC tied_day = Inr [tied_daily]
   \<and> tied_daily \<in> set [tied_daily]
   \<and> sorted (map dt tied_day)
   \<and> (\<exists>first rest. items tied_daily = first # rest
           \<and> first # rest
               = filter (\<lambda>x. en_US_UTC (dt x * 1000) = en_US_UTC (date tied_daily)) tied_day
           \<and> date tied_daily = dt first * 1000
           \<and> (sorted (map dt tied_day) \<longrightarrow> (\<forall>x\<in>set (items tied_daily). dt first \<le> dt x)))"
  by (rule conjI [OF aggregate_tied_day conjI [OF tied_daily_in conjI [OF sorted_tied_day
        daily_date_first_inserted [OF aggregate_tied_day tied_daily_in]]]])

subsection \<open>C5: permutations of the input\<close>

text \<open>
  C5, as stated, fails. Two items of one day in the two possible orders give daily
  forecasts with different dates and differently ordered items.
\<close>

theorem permutation_counterexample:
  "mset [sample 0 8 12 [entry ''Rain'' ''light rain''],
         sample 21600 10 14 [entry ''Rain'' ''light rain'']]
     = mset [sample 21600 10 14 [entry ''Rain'' ''light rain''],
             sample 0 8 12 [entry ''Rain'' ''light rain'']]
   \<and> aggregate en_US_UTC [sample 0 8 12 [entry ''Rain'' ''light rain''],
                           sample 21600 10 14 [entry ''Rain'' ''light rain'']]
     \<noteq> aggregate en_US_UTC [sample 21600 10 14 [entry ''Rain'' ''light rain''],
                             sample 0 8 12 [entry ''Rain'' ''light rain'']]"
  by (simp add: run_defs utc_days)

text \<open>
  C5, amended. For every list of items that all carry a first condition entry with a
  category, and every permutation of it, both aggregations return, with the same number
  of daily forecasts; when the days of the input are intervals in time, the days come in
  the same final order; and every day has in both the same minimum, the same maximum, the
  same items up to their order and, when one category that is not the name of an
  inherited property is the most frequent of the day without a tie, a weather of that
  category. What follows the order of the input is the date of a day, the order of its
  items and, between categories that tie or for the description and the icon, the
  weather.
\<close>

theorem permutation_keeps_days:
  assumes "mset xs = mset ys" and "\<forall>x\<in>set xs. well_formed x"
  shows "\<exists>out1 out2. aggregate tz xs = Inr out1 \<and> aggregate tz ys = Inr out2
           \<and> length out1 = length out2
           \<and> (days_are_intervals tz xs
                \<longrightarrow> map (\<lambda>s. tz (date s)) out1 = map (\<lambda>s. tz (date s)) out2)
           \<and> (\<forall>s1\<in>set out1. \<exists>s2\<in>set out2. tz (date s2) = tz (date s1)
                  \<and> minTemp s2 = minTemp s1 \<and> maxTemp s2 = maxTemp s1
                  \<and> mset (items s2) = mset (items s1)
                  \<and> (\<forall>c. c \<notin> set inherited \<and> most_frequent c (items s1)
                         \<longrightarrow> (\<exists>w1 w2. day_weather s1 = Some w1 \<and> main w1 = Some c
                                \<and> day_weather s2 = Some w2 \<and> main w2 = Some c)))"
proof -
  from assms have set_eq: "set xs = set ys" by (metis mset_eq_setD)
  with assms(2) have wfy: "\<forall>y\<in>set ys. well_formed y" by simp
  from aggregate_total [OF assms(2)] obtain out1 where o1: "aggregate tz xs = Inr out1" by blast
  from aggregate_total [OF wfy] obtain out2 where o2: "aggregate tz ys = Inr out2" by blast
  note d1 = aggregate_days [OF o1] and d2 = aggregate_days [OF o2]
  have "length out1 = card ((\<lambda>x. tz (dt x * 1000)) ` set xs)"
    using distinct_card [OF d1(2)] d1(3) by simp
  moreover have "length out2 = card ((\<lambda>x. tz (dt x * 1000)) ` set ys)"
    using distinct_card [OF d2(2)] d2(3) by simp
  ultimately have len: "length out1 = length out2" by (simp add: set_eq)
  have order: "days_are_intervals tz xs
      \<longrightarrow> map (\<lambda>s. tz (date s)) out1 = map (\<lambda>s. tz (date s)) out2"
    using days_same_order [OF _ assms(1) o1 o2] by blast
  have "\<forall>s1\<in>set out1. \<exists>s2\<in>set out2. tz (date s2) = tz (date s1)
                  \<and> minTemp s2 = minTemp s1 \<and> maxTemp s2 = maxTemp s1
                  \<and> mset (items s2) = mset (items s1)
                  \<and> (\<forall>c. c \<notin> set inherited \<and> most_frequent c (items s1)
                         \<longrightarrow> (\<exists>w1 w2. day_weather s1 = Some w1 \<and> main w1 = Some c
                                \<and> day_weather s2 = Some w2 \<and> main w2 = Some c))"
  proof
    fix s1 assume s1: "s1 \<in> set out1"
    let ?k = "tz (date s1)"
    from aggregate_daily(2) [OF o1 s1] have "?k \<in> (\<lambda>x. tz (dt x * 1000)) ` set ys"
      by (simp add: set_eq)
    then have "?k \<in> set (map (\<lambda>s. tz (date s)) out2)" by (simp only: d2(3))
    then obtain s2 where s2: "s2 \<in> set out2" "tz (date s2) = ?k" by auto
    have df1: "dailyForecast (filter (\<lambda>x. tz (dt x * 1000) = ?k) xs) = Inr s1"
      by (rule aggregate_daily(1) [OF o1 s1])
    have df2: "dailyForecast (filter (\<lambda>x. tz (dt x * 1000) = ?k) ys) = Inr s2"
      using aggregate_daily(1) [OF o2 s2(1)] by (simp add: s2(2))
    note f1 = dailyForecast_Inr [OF df1] and f2 = dailyForecast_Inr [OF df2]
    have mf: "mset (filter (\<lambda>x. tz (dt x * 1000) = ?k) xs)
        = mset (filter (\<lambda>x. tz (dt x * 1000) = ?k) ys)"
      by (simp add: assms(1))
    with f1(2) f2(2) have m: "mset (items s2) = mset (items s1)" by simp
    then have "set (items s2) = set (items s1)" by (rule mset_eq_setD)
    with f1(2,4,5) f2(2,4,5) have t: "minTemp s2 = minTemp s1" "maxTemp s2 = maxTemp s1"
      by simp_all
    have cat: "\<forall>c. c \<notin> set inherited \<and> most_frequent c (items s1)
                         \<longrightarrow> (\<exists>w1 w2. day_weather s1 = Some w1 \<and> main w1 = Some c
                                \<and> day_weather s2 = Some w2 \<and> main w2 = Some c)"
    proof (intro allI impI)
      fix c assume c: "c \<notin> set inherited \<and> most_frequent c (items s1)"
      then have top1: "most_frequent c (filter (\<lambda>x. tz (dt x * 1000) = ?k) xs)"
        by (simp add: f1(2))
      from most_frequent_mset [OF mf top1]
      have top2: "most_frequent c (filter (\<lambda>x. tz (dt x * 1000) = ?k) ys)" .
      from assms(2) have wf1: "\<forall>x\<in>set (filter (\<lambda>x. tz (dt x * 1000) = ?k) xs). well_formed x"
        by simp
      from wfy have wf2: "\<forall>x\<in>set (filter (\<lambda>x. tz (dt x * 1000) = ?k) ys). well_formed x"
        by simp
      from c have ci: "c \<notin> set inherited" by simp
      from dailyForecast_most_frequent [OF df1 wf1 ci top1]
        dailyForecast_most_frequent [OF df2 wf2 ci top2]
      show "\<exists>w1 w2. day_weather s1 = Some w1 \<and> main w1 = Some c
                                \<and> day_weather s2 = Some w2 \<and> main w2 = Some c" by blast
    qed
    from s2 m t cat show "\<exists>s2\<in>set out2. tz (date s2) = tz (date s1)
                  \<and> minTemp s2 = minTemp s1 \<and> maxTemp s2 = maxTemp s1
                  \<and> mset (items s2) = mset (items s1)
                  \<and> (\<forall>c. c \<notin> set inherited \<and> most_frequent c (items s1)
                         \<longrightarrow> (\<exists>w1 w2. day_weather s1 = Some w1 \<and> main w1 = Some c
                                \<and> day_weather s2 = Some w2 \<and> main w2 = Some c))" by blast
  qed
  with o1 o2 len order show ?thesis by blast
qed

text \<open>
  The witness is the two days, three items and one, and their reversal: the days are
  intervals in time, and \<^verbatim>\<open>Clear\<close> is the most frequent category of the first day without
  a tie.
\<close>

lemma mset_rev_two_days: "mset two_days = mset (rev two_days)"
  by simp

lemma intervals_two_days: "days_are_intervals en_US_UTC two_days"
  by (simp add: days_are_intervals_def two_days_def day_one_def sample_def utc_days)

lemma clear_most_frequent:
  "''Clear'' \<notin> set inherited \<and> most_frequent ''Clear'' (items first_day)"
  by (simp add: inherited_def most_frequent_def occurrences_def first_day_def day_one_def
      sample_def entry_def conditionCategory_def weather_0_def)

theorem permutation_keeps_days_witness:
  "mset two_days = mset (rev two_days)
   \<and> days_are_intervals en_US_UTC two_days
   \<and> (''Clear'' \<notin> set inherited \<and> most_frequent ''Clear'' (items first_day))
   \<and> aggregate en_US_UTC two_days = Inr [first_day, second_day]
   \<and> (\<exists>out1 out2. aggregate en_US_UTC two_days = Inr out1
           \<and> aggregate en_US_UTC (rev two_days) = Inr out2
           \<and> length out1 = length out2
           \<and> (days_are_intervals en_US_UTC two_days
                \<longrightarrow> map (\<lambda>s. en_US_UTC (date s)) out1 = map (\<lambda>s. en_US_UTC (date s)) out2)
           \<and> (\<forall>s1\<in>set out1. \<exists>s2\<in>set out2. en_US_UTC (date s2) = en_US_UTC (date s1)
                  \<and> minTemp s2 = minTemp s1 \<and> maxTemp s2 = maxTemp s1
                  \<and> mset (items s2) = mset (items s1)
                  \<and> (\<forall>c. c \<notin> set inherited \<and> most_frequent c (items s1)
                         \<longrightarrow> (\<exists>w1 w2. day_weather s1 = Some w1 \<and> main w1 = Some c
                                \<and> day_weather s2 = Some w2 \<and> main w2 = Some c))))"
  by (rule conjI [OF mset_rev_two_days conjI [OF intervals_two_days
        conjI [OF clear_most_frequent conjI [OF aggregate_two_days
          permutation_keeps_days [OF mset_rev_two_days well_formed_two_days]]]]])

subsection \<open>C6: repeated calls\<close>

text \<open>
  C6. Any number of calls in a row on the same input array, each in the store left by the
  call before, return the same result every time: the value of \<open>aggregate\<close> on the
  contents of the input array, which depends on nothing but these contents and the
  runtime's date strings. Every array that was in the store before the calls, the input
  array among them, holds the same items afterwards: the calls only allocate new arrays.
\<close>

theorem repeated_calls_same_output:
  assumes "a < length h"
  shows "\<exists>h'. calls n tz a h = (h', replicate n (aggregate tz (h ! a)))
           \<and> length h \<le> length h' \<and> take (length h) h' = h"
  using assms
proof (induction n arbitrary: h)
  case 0
  then show ?case by simp
next
  case (Suc n)
  from aggregate_in_refines [OF Suc.prems, of tz] obtain h1 where
    one: "aggregate_in tz a h = (h1, aggregate tz (h ! a))"
    and len1: "length h \<le> length h1" and keep1: "take (length h) h1 = h" by blast
  from Suc.prems len1 have a1: "a < length h1" by simp
  from keep1 Suc.prems have same: "h1 ! a = h ! a" by (metis nth_take)
  from Suc.IH [OF a1] obtain h2 where
    more: "calls n tz a h1 = (h2, replicate n (aggregate tz (h1 ! a)))"
    and len2: "length h1 \<le> length h2" and keep2: "take (length h1) h2 = h1" by blast
  have "take (length h) h2 = take (length h) (take (length h1) h2)"
    using len1 by (simp add: min_absorb1)
  with keep1 keep2 have "take (length h) h2 = h" by simp
  with one more same len1 len2 show ?case by simp
qed

lemma input_address: "0 < length [two_days]"
  by simp

theorem repeated_calls_same_output_witness:
  "\<exists>h'. calls 2 en_US_UTC 0 [two_days]
           = (h', replicate 2 (aggregate en_US_UTC ([two_days] ! 0)))
        \<and> length [two_days] \<le> length h' \<and> take (length [two_days]) h' = [two_days]"
  by (rule repeated_calls_same_output [OF input_address])

subsection \<open>C7: the empty list\<close>

text \<open>
  C7. On the empty list the aggregation returns the empty list of daily forecasts, and
  the screen hands the empty list to the list view; nothing is raised.
\<close>

theorem aggregate_empty:
  "aggregate tz [] = Inr [] \<and> ForecastScreen tz (Some (Array [])) loading = Inr (ForecastList [])"
  by (simp add: aggregate_def groupedByDay_def object_keys_def ForecastScreen_def)

theorem aggregate_empty_witness:
  "aggregate en_US_UTC [] = Inr []
   \<and> ForecastScreen en_US_UTC (Some (Array [])) False = Inr (ForecastList [])"
  by (rule aggregate_empty)

subsection \<open>C8: an item without condition entries\<close>






subsection \<open>C9: forecast data that is absent or not an array\<close>

text \<open>
  C9, as stated, fails. A \<^verbatim>\<open>list\<close> that is truthy but not an array passes the guard and
  the call of \<^verbatim>\<open>forEach\<close> raises; and absent forecast data is not reported as an empty
  list of daily forecasts.
\<close>

theorem unavailable_counterexample:
  "ForecastScreen en_US_UTC (Some NotArray) False = Inl TypeError
   \<and> ForecastScreen en_US_UTC None False \<noteq> Inr (ForecastList [])"
  by (simp add: ForecastScreen_def)

text \<open>
  C9, amended. When the forecast data is absent the screen raises nothing and runs no
  aggregation: it returns the loading indicator when \<open>loading\<close> is set and the
  placeholder for unavailable data otherwise; when the forecast data is present and its
  \<^verbatim>\<open>list\<close> is absent it returns the placeholder.
\<close>

theorem unavailable_placeholder:
  "ForecastScreen tz None loading = Inr (if loading then LoadingIndicator else Unavailable)
   \<and> ForecastScreen tz (Some Falsy) loading = Inr Unavailable"
  by (simp add: ForecastScreen_def)

theorem unavailable_placeholder_witness:
  "ForecastScreen en_US_UTC None True = Inr (if True then LoadingIndicator else Unavailable)
   \<and> ForecastScreen en_US_UTC (Some Falsy) True = Inr Unavailable"
  by (rule unavailable_placeholder)

subsection \<open>C10: the weather of a day comes from an item of that day\<close>

text \<open>
  C10. When every item carries at least one condition entry, the weather of every daily
  forecast of the output is the first condition entry of an item of the input that lies
  on the day of that forecast and is among its items.
\<close>

theorem dominant_detail_from_own_day:
  assumes "\<forall>x\<in>set samples. weather x \<noteq> []"
    and "aggregate tz samples = Inr out" and "s \<in> set out"
  shows "\<exists>x\<in>set samples. tz (dt x * 1000) = tz (date s) \<and> x \<in> set (items s)
           \<and> day_weather s = Some (hd (weather x))"
proof -
  note d = dailyForecast_Inr [OF aggregate_daily(1) [OF assms(2,3)]]
  from d(7) obtain x where x: "x \<in> set (filter (\<lambda>x. tz (dt x * 1000) = tz (date s)) samples)"
    and w: "day_weather s = weather_0 x" by blast
  from x have xs: "x \<in> set samples" "tz (dt x * 1000) = tz (date s)" by simp_all
  from xs(1) assms(1) have "weather x \<noteq> []" by blast
  then have "weather_0 x = Some (hd (weather x))"
    by (cases "weather x") (simp_all add: weather_0_def)
  with w x xs d(2) show ?thesis by auto
qed

theorem dominant_detail_from_own_day_witness:
  "aggregate en_US_UTC two_days = Inr [first_day, second_day]
   \<and> second_day \<in> set [first_day, second_day]
   \<and> (\<exists>x\<in>set two_days. en_US_UTC (dt x * 1000) = en_US_UTC (date second_day)
           \<and> x \<in> set (items second_day)
           \<and> day_weather second_day = Some (hd (weather x)))"
  by (rule conjI [OF aggregate_two_days conjI [OF second_day_in
        dominant_detail_from_own_day [OF entries_two_days aggregate_two_days second_day_in]]])


end
